theory Spec2Isabelle
  imports Complex_Main
begin

section \<open>Data model: cells, frames, errors, log\<close>

text \<open>
  The program is \<^verbatim>\<open>dw_local_prototype.py\<close>: a three-stage batch pipeline over pandas
  DataFrames. A cell is a null (None, NaN and NaT are one value: pandas' \<^verbatim>\<open>isna\<close>), a text,
  a finite number identified by its exact value, or a calendar date.
\<close>

datatype cell = Null | Str string | Num rat | Date nat nat nat

text \<open>
  A DataFrame is its list of column labels (labels may repeat: pandas allows it) and its
  rows in order; each row carries its index label and its cells by position.
\<close>

type_synonym row = "nat \<times> cell list"

record frame =
  columns :: "string list"
  rows :: "row list"

definition wf_frame :: "frame \<Rightarrow> bool" where
  "wf_frame df = list_all (\<lambda>r. length (snd r) = length (columns df)) (rows df)"

text \<open>\<^verbatim>\<open>pd.DataFrame()\<close>: no columns, no rows.\<close>

definition empty_frame :: frame where
  "empty_frame = \<lparr>columns = [], rows = []\<rparr>"

text \<open>\<^verbatim>\<open>df.empty\<close>: true when any axis has length 0.\<close>

definition is_empty :: "frame \<Rightarrow> bool" where
  "is_empty df = (columns df = [] \<or> rows df = [])"

datatype error =
  ValueError | KeyError | TypeError | InvalidIndexError | AttributeError
  | MergeError | OperationalError

datatype log_entry =
  ErrNoStagingData
  | InfoIntegrated nat
  | ErrMissingColumns "string list"
  | InfoCoreSaved
  | ErrCoreEmpty
  | InfoConnected
  | InfoSemanticBuilt

text \<open>
  The scalar operations of the libraries the script calls are parameters of the model:
  \<^verbatim>\<open>str.strip()\<close> and \<^verbatim>\<open>str.upper()\<close> on a column label (line 77; Python strings are
  Unicode, so both know whitespace and letters beyond ASCII, which the model leaves to the
  library), \<^verbatim>\<open>str(v)\<close> of \<^verbatim>\<open>astype(str)\<close>, the matcher of the format \<^verbatim>\<open>%Y%m%d\<close> inside
  \<^verbatim>\<open>pd.to_datetime\<close> (year, month, day of a text that matches), and the numeric reading of
  a cell inside \<^verbatim>\<open>pd.to_numeric\<close>. Every theorem below holds for all of them.
\<close>

record lib =
  str_strip :: "string \<Rightarrow> string"
  str_upper :: "string \<Rightarrow> string"
  astype_str :: "cell \<Rightarrow> string"
  strptime_Ymd :: "string \<Rightarrow> (nat \<times> nat \<times> nat) option"
  numeric_value :: "cell \<Rightarrow> rat option"

section \<open>Column labels\<close>

abbreviation NUMERO_FORMULARIO :: string where "NUMERO_FORMULARIO \<equiv> ''NUMERO_FORMULARIO''"
abbreviation NUMERO_SERIE :: string where "NUMERO_SERIE \<equiv> ''NUMERO_SERIE''"
abbreviation FECHA :: string where "FECHA \<equiv> ''FECHA_DECLARACION_EXPORTACION''"
abbreviation PAIS_DESTINO_FINAL :: string where "PAIS_DESTINO_FINAL \<equiv> ''PAIS_DESTINO_FINAL''"

definition required_cols :: "string list" where
  "required_cols = [NUMERO_FORMULARIO, NUMERO_SERIE]"

definition numeric_cols :: "string list" where
  "numeric_cols = [''CANTIDAD_UNIDADES_FISICAS'', ''PESO_BRUTO_KGS'', ''PESO_NETO_KGS'',
                   ''VALOR_FOB_USD'', ''VALOR_FOB_PESOS'']"

section \<open>The pandas operations the script uses\<close>

text \<open>Labels in order of first appearance (the unsorted union of column indexes).\<close>

fun first_seen :: "'a list \<Rightarrow> 'a list" where
  "first_seen [] = []"
| "first_seen (x # xs) = x # first_seen (filter (\<lambda>y. y \<noteq> x) xs)"

text \<open>The cell of a row under a label, null when the frame has no such column.\<close>

definition cell_at :: "string list \<Rightarrow> cell list \<Rightarrow> string \<Rightarrow> cell" where
  "cell_at cols cs c = (case map_of (zip cols cs) c of Some v \<Rightarrow> v | None \<Rightarrow> Null)"

definition reindex_row :: "string list \<Rightarrow> string list \<Rightarrow> row \<Rightarrow> row" where
  "reindex_row cols new r = (fst r, map (cell_at cols (snd r)) new)"

text \<open>\<^verbatim>\<open>ignore_index=True\<close> and \<^verbatim>\<open>reset_index(drop=True)\<close>: index labels 0, 1, 2, ...\<close>

definition renumber :: "row list \<Rightarrow> row list" where
  "renumber rs = zip [0..<length rs] (map snd rs)"

text \<open>
  \<^verbatim>\<open>pd.concat(objs, ignore_index=True)\<close>. An empty list of objects raises ValueError
  ("No objects to concatenate"). Frames with the same column index are stacked as they
  are; otherwise the columns are the union in order of first appearance, every frame is
  reindexed to it (which raises on a frame with repeated labels) and missing cells are null.
\<close>

definition pd_concat :: "frame list \<Rightarrow> error + frame" where
  "pd_concat dfs =
     (if dfs = [] then Inl ValueError
      else if list_all (\<lambda>df. columns df = columns (hd dfs)) dfs then
        Inr \<lparr>columns = columns (hd dfs), rows = renumber (concat (map rows dfs))\<rparr>
      else if list_ex (\<lambda>df. \<not> distinct (columns df)) dfs then Inl InvalidIndexError
      else
        (let cols = first_seen (concat (map columns dfs)) in
         Inr \<lparr>columns = cols,
              rows = renumber (concat (map (\<lambda>df. map (reindex_row (columns df) cols) (rows df)) dfs))\<rparr>))"

text \<open>
  \<^verbatim>\<open>df[label] = f(df[label])\<close> cell by cell: every column carrying the label is rewritten,
  the others and the index stay.
\<close>

definition map_cells :: "string \<Rightarrow> (cell \<Rightarrow> cell) \<Rightarrow> string list \<Rightarrow> cell list \<Rightarrow> cell list" where
  "map_cells label f cols cs = map (\<lambda>(c, v). if c = label then f v else v) (zip cols cs)"

definition map_column :: "string \<Rightarrow> (cell \<Rightarrow> cell) \<Rightarrow> frame \<Rightarrow> frame" where
  "map_column label f df =
     df\<lparr>rows := map (\<lambda>r. (fst r, map_cells label f (columns df) (snd r))) (rows df)\<rparr>"

definition rename_column :: "string \<Rightarrow> string \<Rightarrow> frame \<Rightarrow> frame" where
  "rename_column old new df = df\<lparr>columns := map (\<lambda>c. if c = old then new else c) (columns df)\<rparr>"

text \<open>
  \<^verbatim>\<open>pd.to_datetime(s.astype(str), format='%Y%m%d', errors='coerce')\<close> on one cell: the text
  of the cell is matched against the format; no match gives NaT.
\<close>

definition to_datetime :: "lib \<Rightarrow> cell \<Rightarrow> cell" where
  "to_datetime L v =
     (case strptime_Ymd L (astype_str L v) of Some (y, m, d) \<Rightarrow> Date y m d | None \<Rightarrow> Null)"

text \<open>\<^verbatim>\<open>pd.to_numeric(s, errors='coerce')\<close> on one cell: what is not a number becomes NaN.\<close>

definition to_numeric :: "lib \<Rightarrow> cell \<Rightarrow> cell" where
  "to_numeric L v = (case numeric_value L v of Some x \<Rightarrow> Num x | None \<Rightarrow> Null)"

definition fillna :: "cell \<Rightarrow> cell \<Rightarrow> cell" where
  "fillna d v = (if v = Null then d else v)"

text \<open>
  \<^verbatim>\<open>drop_duplicates(subset=...)\<close>, keep='first': the key of a row is its cells in every
  column whose label is in the subset (nulls compare equal); a row is dropped when its key
  was seen in an earlier row. The index labels of the survivors stay.
\<close>

definition key_cells :: "string list \<Rightarrow> string list \<Rightarrow> cell list \<Rightarrow> cell list" where
  "key_cells labels cols cs = map snd (filter (\<lambda>p. fst p \<in> set labels) (zip cols cs))"

fun keep_first :: "('a \<Rightarrow> 'k) \<Rightarrow> 'k list \<Rightarrow> 'a list \<Rightarrow> 'a list" where
  "keep_first key seen [] = []"
| "keep_first key seen (r # rs) =
     (if key r \<in> set seen then keep_first key seen rs
      else r # keep_first key (key r # seen) rs)"

definition row_key :: "string list \<Rightarrow> frame \<Rightarrow> row \<Rightarrow> cell list" where
  "row_key labels df r = key_cells labels (columns df) (snd r)"

definition drop_duplicates :: "string list \<Rightarrow> frame \<Rightarrow> error + frame" where
  "drop_duplicates labels df =
     (if list_ex (\<lambda>c. c \<notin> set (columns df)) labels then Inl KeyError
      else Inr (df\<lparr>rows := keep_first (row_key labels df) [] (rows df)\<rparr>))"

text \<open>
  \<^verbatim>\<open>df.to_parquet(path, engine='pyarrow')\<close>: the conversion to an Arrow table refuses
  repeated column names with ValueError. Failures of the file system are not modelled.
\<close>

definition to_parquet :: "frame \<Rightarrow> error + frame" where
  "to_parquet df = (if distinct (columns df) then Inr df else Inl ValueError)"

section \<open>Stage 2: \<^verbatim>\<open>transform_to_core\<close>\<close>

text \<open>What a call leaves behind: the log lines, the Parquet snapshot if one was written,
  and the value returned or the exception raised.\<close>

record outcome =
  logged :: "log_entry list"
  parquet :: "frame option"
  returned :: "error + frame"

text \<open>Lines 77-83: trim and uppercase the labels, then force the name of NUMERO_SERIE.\<close>

definition reconcile_columns :: "lib \<Rightarrow> frame \<Rightarrow> frame" where
  "reconcile_columns L all_data =
     (let all_data = all_data\<lparr>columns := map (\<lambda>c. str_upper L (str_strip L c)) (columns all_data)\<rparr>
      in if ''NUM_SERIE'' \<in> set (columns all_data)
           then rename_column ''NUM_SERIE'' NUMERO_SERIE all_data
         else if ''NUMERO SERIE'' \<in> set (columns all_data)
           then rename_column ''NUMERO SERIE'' NUMERO_SERIE all_data
         else all_data)"

text \<open>
  Lines 95-98. \<^verbatim>\<open>all_data[FECHA]\<close> raises KeyError without the column; with the label
  repeated it is a DataFrame, which \<^verbatim>\<open>pd.to_datetime\<close> refuses with ValueError.
\<close>

definition parse_dates :: "lib \<Rightarrow> frame \<Rightarrow> error + frame" where
  "parse_dates L all_data =
     (if FECHA \<notin> set (columns all_data) then Inl KeyError
      else if 1 < count_list (columns all_data) FECHA then Inl ValueError
      else Inr (map_column FECHA (to_datetime L) all_data))"

text \<open>
  Lines 101-104. With the label repeated \<^verbatim>\<open>all_data[col]\<close> is a DataFrame, which
  \<^verbatim>\<open>pd.to_numeric\<close> refuses with TypeError.
\<close>

fun convert_numeric :: "lib \<Rightarrow> string list \<Rightarrow> frame \<Rightarrow> error + frame" where
  "convert_numeric L [] all_data = Inr all_data"
| "convert_numeric L (col # cols) all_data =
     (if col \<in> set (columns all_data) then
        (if 1 < count_list (columns all_data) col then Inl TypeError
         else convert_numeric L cols (map_column col (to_numeric L) all_data))
      else convert_numeric L cols all_data)"

text \<open>Lines 110-114.\<close>

fun fill_numeric :: "string list \<Rightarrow> frame \<Rightarrow> frame" where
  "fill_numeric [] all_data = all_data"
| "fill_numeric (col # cols) all_data =
     (if col \<in> set (columns all_data)
      then fill_numeric cols (map_column col (fillna (Num 0)) all_data)
      else fill_numeric cols all_data)"

definition fill_nulls :: "frame \<Rightarrow> frame" where
  "fill_nulls all_data =
     (let all_data = fill_numeric numeric_cols all_data
      in if PAIS_DESTINO_FINAL \<in> set (columns all_data)
         then map_column PAIS_DESTINO_FINAL (fillna (Str ''Unknown'')) all_data
         else all_data)"

text \<open>Lines 95-104: the date and the numeric conversions.\<close>

definition coerce_types :: "lib \<Rightarrow> frame \<Rightarrow> error + frame" where
  "coerce_types L all_data =
     (case parse_dates L all_data of
        Inl e \<Rightarrow> Inl e
      | Inr all_data \<Rightarrow> convert_numeric L numeric_cols all_data)"

text \<open>
  The mapping of periods to staging frames is an association list in insertion order
  (\<^verbatim>\<open>staging_dfs.values()\<close>).
\<close>

definition non_empty_frames :: "(string \<times> frame) list \<Rightarrow> frame list" where
  "non_empty_frames staging_dfs = filter (\<lambda>df. \<not> is_empty df) (map snd staging_dfs)"

definition transform_to_core :: "lib \<Rightarrow> (string \<times> frame) list \<Rightarrow> outcome" where
  "transform_to_core L staging_dfs =
     (case pd_concat (non_empty_frames staging_dfs) of
        Inl e \<Rightarrow> \<lparr>logged = [], parquet = None, returned = Inl e\<rparr>
      | Inr all_data \<Rightarrow>
          if is_empty all_data then
            \<lparr>logged = [ErrNoStagingData], parquet = None, returned = Inr empty_frame\<rparr>
          else
            (let log1 = [InfoIntegrated (length (rows all_data))];
                 all_data = reconcile_columns L all_data;
                 missing = filter (\<lambda>col. col \<notin> set (columns all_data)) required_cols
             in if missing \<noteq> [] then
                  \<lparr>logged = log1 @ [ErrMissingColumns missing], parquet = None,
                   returned = Inr empty_frame\<rparr>
                else
                  (case coerce_types L all_data of
                     Inl e \<Rightarrow> \<lparr>logged = log1, parquet = None, returned = Inl e\<rparr>
                   | Inr all_data \<Rightarrow>
                       (case drop_duplicates [NUMERO_FORMULARIO, NUMERO_SERIE] all_data of
                          Inl e \<Rightarrow> \<lparr>logged = log1, parquet = None, returned = Inl e\<rparr>
                        | Inr all_data \<Rightarrow>
                            (case to_parquet (fill_nulls all_data) of
                               Inl e \<Rightarrow> \<lparr>logged = log1, parquet = None, returned = Inl e\<rparr>
                             | Inr all_data \<Rightarrow>
                                 \<lparr>logged = log1 @ [InfoCoreSaved], parquet = Some all_data,
                                  returned = Inr all_data\<rparr>)))))"

text \<open>
  The three periods of \<^verbatim>\<open>MONTHS\<close> when none of the spreadsheets exists:
  \<^verbatim>\<open>read_excel_to_staging\<close> returns \<^verbatim>\<open>pd.DataFrame()\<close> for each.
\<close>

definition all_periods_missing :: "(string \<times> frame) list" where
  "all_periods_missing =
     [(''2025-01'', empty_frame), (''2025-02'', empty_frame), (''2025-03'', empty_frame)]"

section \<open>Stage 3: \<^verbatim>\<open>build_semantic_layer\<close>\<close>

text \<open>
  \<^verbatim>\<open>df[[l1, l2, ...]]\<close>: KeyError when a label is missing; otherwise a new frame with, for
  each requested label in turn, every column that carries it.
\<close>

definition select_columns :: "string list \<Rightarrow> frame \<Rightarrow> error + frame" where
  "select_columns labels df =
     (if list_ex (\<lambda>c. c \<notin> set (columns df)) labels then Inl KeyError
      else Inr \<lparr>columns = concat (map (\<lambda>l. filter (\<lambda>c. c = l) (columns df)) labels),
               rows = map (\<lambda>r. (fst r, concat (map (\<lambda>l. key_cells [l] (columns df) (snd r)) labels)))
                        (rows df)\<rparr>)"

text \<open>\<^verbatim>\<open>drop_duplicates()\<close> without a subset: the key of a row is all of its columns.\<close>

definition drop_duplicates_all :: "frame \<Rightarrow> frame" where
  "drop_duplicates_all df = df\<lparr>rows := keep_first (row_key (columns df) df) [] (rows df)\<rparr>"

definition reset_index :: "frame \<Rightarrow> frame" where
  "reset_index df = df\<lparr>rows := renumber (rows df)\<rparr>"

text \<open>\<^verbatim>\<open>df.index + 1\<close>, one value per row.\<close>

definition index_plus_1 :: "frame \<Rightarrow> cell list" where
  "index_plus_1 df = map (\<lambda>r. Num (of_nat (fst r + 1))) (rows df)"

text \<open>
  \<^verbatim>\<open>df[label] = values\<close> with one value per row of \<^verbatim>\<open>df\<close>: an existing label is overwritten
  in place, a new one is appended as the last column.
\<close>

definition set_column :: "string \<Rightarrow> cell list \<Rightarrow> frame \<Rightarrow> frame" where
  "set_column label vals df =
     (if label \<in> set (columns df) then
        df\<lparr>rows := map (\<lambda>p. (fst (fst p), map_cells label (\<lambda>_. snd p) (columns df) (snd (fst p))))
                      (zip (rows df) vals)\<rparr>
      else
        \<lparr>columns = columns df @ [label],
         rows = map (\<lambda>p. (fst (fst p), snd (fst p) @ [snd p])) (zip (rows df) vals)\<rparr>)"

text \<open>
  \<^verbatim>\<open>df[label].dt.year\<close> (month, day): KeyError without the column; AttributeError when the
  label is repeated (a DataFrame has no \<^verbatim>\<open>.dt\<close>) or the column is not datetime-like. The
  model keeps no dtypes: a column counts as datetime-like when every cell is a date or null.
  The part of NaT is NaN.
\<close>

definition datetime_like :: "cell \<Rightarrow> bool" where
  "datetime_like v = (case v of Null \<Rightarrow> True | Date y m d \<Rightarrow> True | _ \<Rightarrow> False)"

datatype date_part = Year | Month | Day

definition part_of :: "date_part \<Rightarrow> cell \<Rightarrow> cell" where
  "part_of p v =
     (case v of
        Date y m d \<Rightarrow> Num (of_nat (case p of Year \<Rightarrow> y | Month \<Rightarrow> m | Day \<Rightarrow> d))
      | _ \<Rightarrow> Null)"

definition dt_part :: "date_part \<Rightarrow> string \<Rightarrow> frame \<Rightarrow> error + cell list" where
  "dt_part p label df =
     (if label \<notin> set (columns df) then Inl KeyError
      else if 1 < count_list (columns df) label then Inl AttributeError
      else
        (let vs = map (\<lambda>r. cell_at (columns df) (snd r) label) (rows df)
         in if list_all datetime_like vs then Inr (map (part_of p) vs) else Inl AttributeError))"

text \<open>
  \<^verbatim>\<open>left.merge(right, on=keys)\<close>, an inner join. Every key must be a column of both frames
  (KeyError) and label exactly one column in each (ValueError). Rows are paired when their
  key cells are equal, nulls included; the result has the left columns, then the right
  columns that are not keys. A label that is not a key and occurs on both sides gets the
  suffix \<^verbatim>\<open>_x\<close> on the left and \<^verbatim>\<open>_y\<close> on the right; a repeated label that the suffixes
  create is a MergeError. The result has a fresh index.
\<close>

definition join_key :: "string list \<Rightarrow> frame \<Rightarrow> row \<Rightarrow> cell list" where
  "join_key keys df r = map (cell_at (columns df) (snd r)) keys"

definition other_cells :: "string list \<Rightarrow> frame \<Rightarrow> row \<Rightarrow> cell list" where
  "other_cells keys df r = map snd (filter (\<lambda>p. fst p \<notin> set keys) (zip (columns df) (snd r)))"

definition suffix_clash :: "string list \<Rightarrow> string list \<Rightarrow> bool" where
  "suffix_clash old new =
     list_ex (\<lambda>i. new ! i \<in> set (take i new) \<and> old ! i \<notin> set (take i old)) [0..<length new]"

definition merged_columns :: "string list \<Rightarrow> string list \<Rightarrow> string list \<Rightarrow> error + string list" where
  "merged_columns left_cols right_cols keys =
     (if list_ex (\<lambda>k. \<not> (k \<in> set left_cols \<and> k \<in> set right_cols)) keys
        then Inl KeyError
      else if list_ex (\<lambda>k. 1 < count_list left_cols k \<or> 1 < count_list right_cols k) keys
        then Inl ValueError
      else
        (let rrest = filter (\<lambda>c. c \<notin> set keys) right_cols;
             overlap = filter (\<lambda>c. c \<in> set rrest) left_cols;
             lcols = map (\<lambda>c. if c \<in> set overlap then c @ ''_x'' else c) left_cols;
             rcols = map (\<lambda>c. if c \<in> set overlap then c @ ''_y'' else c) rrest
         in if suffix_clash left_cols lcols \<or> suffix_clash rrest rcols then Inl MergeError
            else Inr (lcols @ rcols)))"

definition merge :: "frame \<Rightarrow> frame \<Rightarrow> string list \<Rightarrow> error + frame" where
  "merge left right keys =
     (case merged_columns (columns left) (columns right) keys of
        Inl e \<Rightarrow> Inl e
      | Inr cols \<Rightarrow>
          Inr \<lparr>columns = cols,
               rows = renumber (concat (map (\<lambda>l.
                        map (\<lambda>r. (fst l, snd l @ other_cells keys right r))
                          (filter (\<lambda>r. join_key keys right r = join_key keys left l) (rows right)))
                      (rows left)))\<rparr>)"

text \<open>
  The state the function works in: the DataFrame objects by reference, the next unused
  reference, the tables of the SQLite file and the log. Indexing with a list of labels,
  \<^verbatim>\<open>drop_duplicates\<close>, \<^verbatim>\<open>reset_index\<close> and \<^verbatim>\<open>merge\<close> return new objects;
  \<^verbatim>\<open>df[label] = values\<close> changes the object \<^verbatim>\<open>df\<close> refers to.
\<close>

type_synonym table = "string list \<times> cell list list"

record world =
  heap :: "nat \<Rightarrow> frame"
  fresh :: nat
  db :: "string \<Rightarrow> table option"
  wlog :: "log_entry list"

definition new_frame :: "frame \<Rightarrow> world \<Rightarrow> nat \<times> world" where
  "new_frame df w = (fresh w, w\<lparr>heap := (heap w)(fresh w := df), fresh := Suc (fresh w)\<rparr>)"

definition setitem :: "nat \<Rightarrow> string \<Rightarrow> cell list \<Rightarrow> world \<Rightarrow> world" where
  "setitem ref label vals w = w\<lparr>heap := (heap w)(ref := set_column label vals (heap w ref))\<rparr>"

definition logging :: "log_entry \<Rightarrow> world \<Rightarrow> world" where
  "logging entry w = w\<lparr>wlog := wlog w @ [entry]\<rparr>"

text \<open>
  \<^verbatim>\<open>df.to_sql(name, conn, if_exists='replace', index=False)\<close>: the table is replaced by the
  columns and rows of the frame, without the index. SQLite refuses a table with a repeated
  column name (OperationalError). Other failures of the store are not modelled.
\<close>

definition table_of :: "frame \<Rightarrow> table" where
  "table_of df = (columns df, map snd (rows df))"

definition to_sql :: "string \<Rightarrow> frame \<Rightarrow> world \<Rightarrow> error + world" where
  "to_sql name df w =
     (if distinct (columns df) then Inr (w\<lparr>db := (db w)(name \<mapsto> table_of df)\<rparr>)
      else Inl OperationalError)"

definition time_attrs :: "string list" where
  "time_attrs = [FECHA]"

definition empresa_attrs :: "string list" where
  "empresa_attrs = [''NIT_EXPORTADOR'', ''RAZON_SOCIAL_EXPORTADOR'', ''DIREC_EXPORTADOR'']"

definition pais_attrs :: "string list" where
  "pais_attrs = [''COD_PAIS_DESTINO'', PAIS_DESTINO_FINAL]"

definition mercancia_attrs :: "string list" where
  "mercancia_attrs = [''SUBPARTIDA'']"

definition fact_columns :: "string list" where
  "fact_columns = [''TIME_ID'', ''EMPRESA_ID'', ''PAIS_ID'', ''MERCANCIA_ID'',
                   ''VALOR_FOB_USD'', ''PESO_NETO_KGS'', ''CANTIDAD_UNIDADES_FISICAS'',
                   NUMERO_FORMULARIO]"

text \<open>
  Lines 133-134, 141-142, 146-147, 151-152: the distinct attribute tuples of the core frame
  as a new object, which then receives its surrogate key column in place. The result is the
  reference of the new object, or the state at the exception.
\<close>

definition extract_dimension ::
  "nat \<Rightarrow> string list \<Rightarrow> string \<Rightarrow> world \<Rightarrow> world \<times> (error + nat)" where
  "extract_dimension core_df attrs id_label w =
     (case select_columns attrs (heap w core_df) of
        Inl e \<Rightarrow> (w, Inl e)
      | Inr selected \<Rightarrow>
          (let (dim_df, w) = new_frame (reset_index (drop_duplicates_all selected)) w;
               w = setitem dim_df id_label (index_plus_1 (heap w dim_df)) w
           in (w, Inr dim_df)))"

text \<open>Lines 135-137: one derived column of the time dimension.\<close>

definition add_date_part :: "nat \<Rightarrow> string \<Rightarrow> date_part \<Rightarrow> world \<Rightarrow> error + world" where
  "add_date_part dim_time label p w =
     (case dt_part p FECHA (heap w dim_time) of
        Inl e \<Rightarrow> Inl e
      | Inr vals \<Rightarrow> Inr (setitem dim_time label vals w))"

text \<open>Lines 133-138.\<close>

definition build_dim_time :: "nat \<Rightarrow> world \<Rightarrow> world \<times> (error + nat)" where
  "build_dim_time core_df w =
     (case extract_dimension core_df time_attrs ''TIME_ID'' w of
        (w, Inl e) \<Rightarrow> (w, Inl e)
      | (w, Inr dim_time) \<Rightarrow>
          (case add_date_part dim_time ''YEAR'' Year w of
             Inl e \<Rightarrow> (w, Inl e)
           | Inr w \<Rightarrow>
               (case add_date_part dim_time ''MONTH'' Month w of
                  Inl e \<Rightarrow> (w, Inl e)
                | Inr w \<Rightarrow>
                    (case add_date_part dim_time ''DAY'' Day w of
                       Inl e \<Rightarrow> (w, Inl e)
                     | Inr w \<Rightarrow>
                         (case to_sql ''DIM_TIME'' (heap w dim_time) w of
                            Inl e \<Rightarrow> (w, Inl e)
                          | Inr w \<Rightarrow> (w, Inr dim_time))))))"

text \<open>Lines 141-143, 146-148, 151-153.\<close>

definition build_dim ::
  "nat \<Rightarrow> string list \<Rightarrow> string \<Rightarrow> string \<Rightarrow> world \<Rightarrow> world \<times> (error + nat)" where
  "build_dim core_df attrs id_label name w =
     (case extract_dimension core_df attrs id_label w of
        (w, Inl e) \<Rightarrow> (w, Inl e)
      | (w, Inr dim_df) \<Rightarrow>
          (case to_sql name (heap w dim_df) w of
             Inl e \<Rightarrow> (w, Inl e)
           | Inr w \<Rightarrow> (w, Inr dim_df)))"

text \<open>Lines 156-166.\<close>

definition build_fact :: "nat \<Rightarrow> nat \<Rightarrow> nat \<Rightarrow> nat \<Rightarrow> nat \<Rightarrow> world \<Rightarrow> world \<times> error option" where
  "build_fact core_df dim_time dim_empresa dim_pais dim_mercancia w =
     (case merge (heap w core_df) (heap w dim_time) time_attrs of
        Inl e \<Rightarrow> (w, Some e)
      | Inr fact_exportaciones \<Rightarrow>
     (case merge fact_exportaciones (heap w dim_empresa) empresa_attrs of
        Inl e \<Rightarrow> (w, Some e)
      | Inr fact_exportaciones \<Rightarrow>
     (case merge fact_exportaciones (heap w dim_pais) pais_attrs of
        Inl e \<Rightarrow> (w, Some e)
      | Inr fact_exportaciones \<Rightarrow>
     (case merge fact_exportaciones (heap w dim_mercancia) mercancia_attrs of
        Inl e \<Rightarrow> (w, Some e)
      | Inr fact_exportaciones \<Rightarrow>
     (case select_columns fact_columns fact_exportaciones of
        Inl e \<Rightarrow> (w, Some e)
      | Inr fact_exportaciones \<Rightarrow>
     (case to_sql ''FACT_EXPORTACIONES'' fact_exportaciones w of
        Inl e \<Rightarrow> (w, Some e)
      | Inr w \<Rightarrow> (w, None)))))))"

text \<open>
  Lines 124-169. The argument is the reference of the caller's core frame. The result is the
  state after the call and the exception, if one ended it.
\<close>

definition build_semantic_layer :: "nat \<Rightarrow> world \<Rightarrow> world \<times> error option" where
  "build_semantic_layer core_df w =
     (if is_empty (heap w core_df) then (logging ErrCoreEmpty w, None)
      else
        (let w = logging InfoConnected w in
         case build_dim_time core_df w of
           (w, Inl e) \<Rightarrow> (w, Some e)
         | (w, Inr dim_time) \<Rightarrow>
        (case build_dim core_df empresa_attrs ''EMPRESA_ID'' ''DIM_EMPRESA'' w of
           (w, Inl e) \<Rightarrow> (w, Some e)
         | (w, Inr dim_empresa) \<Rightarrow>
        (case build_dim core_df pais_attrs ''PAIS_ID'' ''DIM_PAIS'' w of
           (w, Inl e) \<Rightarrow> (w, Some e)
         | (w, Inr dim_pais) \<Rightarrow>
        (case build_dim core_df mercancia_attrs ''MERCANCIA_ID'' ''DIM_MERCANCIA'' w of
           (w, Inl e) \<Rightarrow> (w, Some e)
         | (w, Inr dim_mercancia) \<Rightarrow>
        (case build_fact core_df dim_time dim_empresa dim_pais dim_mercancia w of
           (w, Some e) \<Rightarrow> (w, Some e)
         | (w, None) \<Rightarrow> (logging InfoSemanticBuilt w, None)))))))"

text \<open>
  What \<^verbatim>\<open>extract_dimension\<close> leaves in the new object, as a function of the core frame.
\<close>

definition dimension_frame :: "string list \<Rightarrow> string \<Rightarrow> frame \<Rightarrow> error + frame" where
  "dimension_frame attrs id_label core =
     (case select_columns attrs core of
        Inl e \<Rightarrow> Inl e
      | Inr selected \<Rightarrow>
          (let d = reset_index (drop_duplicates_all selected)
           in Inr (set_column id_label (index_plus_1 d) d)))"

text \<open>
  Two predicates for the proofs. A dimension frame for the attributes \<open>attrs\<close> of the core
  frame: its first columns are the attributes, its rows carry the distinct attribute tuples
  of the core frame, each once, and its key column counts from 1. A fact frame in the
  making: its first columns are those of the core frame, up to a renaming that leaves the
  labels in \<open>K\<close> alone, and its rows are the rows of the core frame, in order, each
  extended to the right.
\<close>

definition dim_facts :: "string list \<Rightarrow> string \<Rightarrow> frame \<Rightarrow> frame \<Rightarrow> bool" where
  "dim_facts attrs id_label core D \<longleftrightarrow>
     wf_frame D \<and> take (length attrs) (columns D) = attrs \<and> length attrs \<le> length (columns D)
     \<and> distinct (map (\<lambda>r. take (length attrs) (snd r)) (rows D))
     \<and> set (map (\<lambda>r. take (length attrs) (snd r)) (rows D)) = set (map (join_key attrs core) (rows core))
     \<and> map (\<lambda>r. cell_at (columns D) (snd r) id_label) (rows D)
           = map (\<lambda>i. Num (of_nat i)) [1..<Suc (length (rows D))]"

definition fact_extends :: "frame \<Rightarrow> string set \<Rightarrow> frame \<Rightarrow> bool" where
  "fact_extends core K F \<longleftrightarrow>
     (\<exists>ren ex. columns F = map ren (columns core) @ ex \<and> (\<forall>k\<in>K. ren k = k))
     \<and> list_all2 (\<lambda>l cs. \<exists>e. cs = snd l @ e) (rows core) (map snd (rows F))"

text \<open>The labels the four joins use as keys.\<close>

definition key_labels :: "string set" where
  "key_labels = set (time_attrs @ empresa_attrs @ pais_attrs @ mercancia_attrs)"

text \<open>
  The labels the function creates, and the labels of the core frame it reads by name.
\<close>

definition generated_labels :: "string list" where
  "generated_labels = [''TIME_ID'', ''YEAR'', ''MONTH'', ''DAY'', ''EMPRESA_ID'', ''PAIS_ID'',
                       ''MERCANCIA_ID'']"

definition used_labels :: "string list" where
  "used_labels = time_attrs @ empresa_attrs @ pais_attrs @ mercancia_attrs
                 @ [''VALOR_FOB_USD'', ''PESO_NETO_KGS'', ''CANTIDAD_UNIDADES_FISICAS'',
                    NUMERO_FORMULARIO]"

text \<open>
  A core frame on which the build completes: every label read by name is the label of
  exactly one column, no column carries a label the function creates, and the date column
  is datetime-like.
\<close>

definition buildable :: "frame \<Rightarrow> bool" where
  "buildable C \<longleftrightarrow>
     \<not> is_empty C \<and> wf_frame C
     \<and> list_all (\<lambda>k. count_list (columns C) k = 1) used_labels
     \<and> list_all (\<lambda>g. g \<notin> set (columns C)) generated_labels
     \<and> list_all (\<lambda>r. datetime_like (cell_at (columns C) (snd r) FECHA)) (rows C)"

text \<open>The frame condition of a step: references in use keep their objects.\<close>

definition preserves :: "world \<Rightarrow> world \<Rightarrow> bool" where
  "preserves w w' = (fresh w \<le> fresh w' \<and> list_all (\<lambda>r. heap w' r = heap w r) [0..<fresh w])"

text \<open>The tuple of a row under the defining attributes of a dimension, and the number of
  distinct tuples in a frame.\<close>

definition distinct_tuples :: "string list \<Rightarrow> frame \<Rightarrow> nat" where
  "distinct_tuples attrs df = card (set (map (join_key attrs df) (rows df)))"

text \<open>The values of a table under a label, row by row.\<close>

definition table_column :: "table \<Rightarrow> string \<Rightarrow> cell list" where
  "table_column t label = map (\<lambda>cs. cell_at (fst t) cs label) (snd t)"

text \<open>
  A fact row against the stored dimensions. \<open>references\<close>: the dimension table has exactly
  one row whose cells under the defining attributes are the attribute tuple of the core row
  (nulls equal), and \<open>key\<close> is the surrogate key of that row. \<open>fact_row\<close>: the eight cells
  are the four keys of the dimension rows the core row references, then the three measures
  and the form number of the core row.
\<close>

definition references :: "table \<Rightarrow> string list \<Rightarrow> string \<Rightarrow> frame \<Rightarrow> row \<Rightarrow> cell \<Rightarrow> bool" where
  "references dim_table attrs id_label core r key =
     (case filter (\<lambda>d. map (cell_at (fst dim_table) d) attrs = join_key attrs core r) (snd dim_table) of
        [d] \<Rightarrow> cell_at (fst dim_table) d id_label = key
      | _ \<Rightarrow> False)"

definition fact_row :: "table \<Rightarrow> table \<Rightarrow> table \<Rightarrow> table \<Rightarrow> frame \<Rightarrow> row \<Rightarrow> cell list \<Rightarrow> bool" where
  "fact_row time_t empresa_t pais_t mercancia_t core r cs =
     (length cs = 8
      \<and> references time_t time_attrs ''TIME_ID'' core r (cs ! 0)
      \<and> references empresa_t empresa_attrs ''EMPRESA_ID'' core r (cs ! 1)
      \<and> references pais_t pais_attrs ''PAIS_ID'' core r (cs ! 2)
      \<and> references mercancia_t mercancia_attrs ''MERCANCIA_ID'' core r (cs ! 3)
      \<and> drop 4 cs = map (cell_at (columns core) (snd r))
                       [''VALOR_FOB_USD'', ''PESO_NETO_KGS'', ''CANTIDAD_UNIDADES_FISICAS'',
                        NUMERO_FORMULARIO])"

text \<open>
  Two more predicates for the proofs. A label that no join can produce by adding its
  suffix \<^verbatim>\<open>_x\<close> or \<^verbatim>\<open>_y\<close>; and a label carried from one frame to another: it labels as many
  columns in both, and the rows, in order, have the same cell under it.
\<close>

definition unsuffixed :: "string \<Rightarrow> bool" where
  "unsuffixed x = (last x \<noteq> CHR ''x'' \<and> last x \<noteq> CHR ''y'')"

definition carries :: "frame \<Rightarrow> frame \<Rightarrow> string \<Rightarrow> bool" where
  "carries A B x =
     (count_list (columns B) x = count_list (columns A) x
      \<and> map (\<lambda>r. cell_at (columns B) (snd r) x) (rows B)
          = map (\<lambda>r. cell_at (columns A) (snd r) x) (rows A))"

definition initial_world :: "frame \<Rightarrow> world" where
  "initial_world core = \<lparr>heap = (\<lambda>_. empty_frame)(0 := core), fresh = 1, db = Map.empty, wlog = []\<rparr>"

definition sample_semantic_core :: frame where
  "sample_semantic_core =
     \<lparr>columns = [NUMERO_FORMULARIO, NUMERO_SERIE, FECHA, ''NIT_EXPORTADOR'',
                ''RAZON_SOCIAL_EXPORTADOR'', ''DIREC_EXPORTADOR'', ''COD_PAIS_DESTINO'',
                PAIS_DESTINO_FINAL, ''SUBPARTIDA'', ''VALOR_FOB_USD'', ''PESO_NETO_KGS'',
                ''CANTIDAD_UNIDADES_FISICAS''],
      rows =
        [(0, [Num 100, Num 1, Date 2025 1 15, Num 900, Str ''ACME'', Str ''CALLE 1'', Num 249,
              Str ''USA'', Num 901, Num 12, Num 3, Num 1]),
         (2, [Num 100, Num 2, Null, Num 900, Str ''ACME'', Str ''CALLE 1'', Null,
              Str ''Unknown'', Null, Num 0, Num 0, Num 0]),
         (4, [Num 101, Num 1, Null, Null, Null, Null, Num 249,
              Str ''USA'', Num 901, Num 7, Num 2, Num 1])]\<rparr>"

section \<open>Stages of the transformation, for the statements\<close>

text \<open>
  The dataset before deduplication (lines 67-104), the dataset before the nulls are filled
  (lines 67-107), and the natural key of a row.
\<close>

definition typed_dataset :: "lib \<Rightarrow> (string \<times> frame) list \<Rightarrow> error + frame" where
  "typed_dataset L staging_dfs =
     (case pd_concat (non_empty_frames staging_dfs) of
        Inl e \<Rightarrow> Inl e
      | Inr all_data \<Rightarrow> coerce_types L (reconcile_columns L all_data))"

definition deduplicated :: "lib \<Rightarrow> (string \<times> frame) list \<Rightarrow> error + frame" where
  "deduplicated L staging_dfs =
     (case typed_dataset L staging_dfs of
        Inl e \<Rightarrow> Inl e
      | Inr all_data \<Rightarrow> drop_duplicates [NUMERO_FORMULARIO, NUMERO_SERIE] all_data)"

definition key_pair :: "frame \<Rightarrow> row \<Rightarrow> cell \<times> cell" where
  "key_pair df r =
     (cell_at (columns df) (snd r) NUMERO_FORMULARIO, cell_at (columns df) (snd r) NUMERO_SERIE)"

definition cellwise :: "(string \<Rightarrow> cell \<Rightarrow> cell) \<Rightarrow> frame \<Rightarrow> frame" where
  "cellwise g df =
     df\<lparr>rows := map (\<lambda>r. (fst r, map (\<lambda>p. g (fst p) (snd p)) (zip (columns df) (snd r)))) (rows df)\<rparr>"

text \<open>What lines 110-114 do to one cell under a label.\<close>

definition fill_cell :: "string \<Rightarrow> cell \<Rightarrow> cell" where
  "fill_cell c v =
     (if c \<in> set numeric_cols then fillna (Num 0) v
      else if c = PAIS_DESTINO_FINAL then fillna (Str ''Unknown'') v
      else v)"


section \<open>A sample run\<close>

text \<open>
  An instance of the library parameters for running the model on concrete data, for labels
  and texts that are ASCII: trimming removes the ASCII whitespace (9..13, 28..32) at both
  ends and uppercasing maps a..z, as Python does on such text; a text prints as itself, a
  whole number in decimal; the format matches eight digits that form a calendar date; a
  text of digits reads as that number.
\<close>

definition ascii_isspace :: "char \<Rightarrow> bool" where
  "ascii_isspace c = (let n = (of_char c :: nat) in (9 \<le> n \<and> n \<le> 13) \<or> (28 \<le> n \<and> n \<le> 32))"

definition ascii_strip :: "string \<Rightarrow> string" where
  "ascii_strip s = rev (dropWhile ascii_isspace (rev (dropWhile ascii_isspace s)))"

definition ascii_upper_char :: "char \<Rightarrow> char" where
  "ascii_upper_char c =
     (let n = (of_char c :: nat) in if 97 \<le> n \<and> n \<le> 122 then char_of (n - 32) else c)"

definition ascii_upper :: "string \<Rightarrow> string" where
  "ascii_upper s = map ascii_upper_char s"

definition digit_of :: "char \<Rightarrow> nat option" where
  "digit_of c = (let n = (of_char c :: nat) in if 48 \<le> n \<and> n \<le> 57 then Some (n - 48) else None)"

fun number_of_digits :: "nat \<Rightarrow> string \<Rightarrow> nat option" where
  "number_of_digits acc [] = Some acc"
| "number_of_digits acc (c # cs) =
     (case digit_of c of None \<Rightarrow> None | Some d \<Rightarrow> number_of_digits (10 * acc + d) cs)"

definition days_in_month :: "nat \<Rightarrow> nat \<Rightarrow> nat" where
  "days_in_month y m =
     (if m = 2 then (if y mod 4 = 0 \<and> (y mod 400 = 0 \<or> y mod 100 \<noteq> 0) then 29 else 28)
      else if m = 4 \<or> m = 6 \<or> m = 9 \<or> m = 11 then 30 else 31)"

definition strict_Ymd :: "string \<Rightarrow> (nat \<times> nat \<times> nat) option" where
  "strict_Ymd s =
     (if length s \<noteq> 8 then None
      else case (number_of_digits 0 (take 4 s), number_of_digits 0 (take 2 (drop 4 s)),
                 number_of_digits 0 (drop 6 s)) of
        (Some y, Some m, Some d) \<Rightarrow>
          if 1 \<le> y \<and> 1 \<le> m \<and> m \<le> 12 \<and> 1 \<le> d \<and> d \<le> days_in_month y m
          then Some (y, m, d) else None
      | _ \<Rightarrow> None)"

fun decimal :: "nat \<Rightarrow> string" where
  "decimal n = (if n < 10 then [''0123456789'' ! n] else decimal (n div 10) @ [''0123456789'' ! (n mod 10)])"

declare decimal.simps [simp del]

definition sample_str :: "cell \<Rightarrow> string" where
  "sample_str v =
     (case v of
        Null \<Rightarrow> ''nan''
      | Str s \<Rightarrow> s
      | Num x \<Rightarrow> (let (a, b) = quotient_of x in
                   if b = 1 \<and> 0 \<le> a then decimal (nat a) else ''#.#'')
      | Date y m d \<Rightarrow> decimal y @ ''-'' @ decimal m @ ''-'' @ decimal d)"

definition sample_frame :: "row list \<Rightarrow> frame" where
  "sample_frame rs = \<lparr>columns = [NUMERO_FORMULARIO, NUMERO_SERIE, FECHA, ''VALOR_FOB_USD'', PAIS_DESTINO_FINAL], rows = rs\<rparr>"


definition sample_numeric :: "cell \<Rightarrow> rat option" where
  "sample_numeric v =
     (case v of
        Num x \<Rightarrow> Some x
      | Str s \<Rightarrow> (if s = [] then None else map_option of_nat (number_of_digits 0 s))
      | _ \<Rightarrow> None)"

definition sample_lib :: lib where
  "sample_lib = \<lparr>str_strip = ascii_strip, str_upper = ascii_upper, astype_str = sample_str, strptime_Ymd = strict_Ymd, numeric_value = sample_numeric\<rparr>"

definition sample_staging :: "(string \<times> frame) list" where
  "sample_staging =
     [(''2025-01'', sample_frame
         [(0, [Num 100, Num 1, Num 20250115, Str ''12'', Str ''PERU'']),
          (1, [Num 100, Num 1, Num 20250116, Str ''x'', Null]),
          (2, [Null, Null, Str ''bad'', Null, Null])]),
      (''2025-02'', empty_frame),
      (''2025-03'', sample_frame
         [(0, [Null, Null, Num 20250230, Num 5, Str ''CHILE'']),
          (1, [Num 101, Num 1, Num 20250301, Null, Null])])]"

definition sample_integrated :: frame where
  "sample_integrated = sample_frame
     [(0, [Num 100, Num 1, Num 20250115, Str ''12'', Str ''PERU'']),
      (1, [Num 100, Num 1, Num 20250116, Str ''x'', Null]),
      (2, [Null, Null, Str ''bad'', Null, Null]),
      (3, [Null, Null, Num 20250230, Num 5, Str ''CHILE'']),
      (4, [Num 101, Num 1, Num 20250301, Null, Null])]"

definition sample_dated :: frame where
  "sample_dated = sample_frame
     [(0, [Num 100, Num 1, Date 2025 1 15, Str ''12'', Str ''PERU'']),
      (1, [Num 100, Num 1, Date 2025 1 16, Str ''x'', Null]),
      (2, [Null, Null, Null, Null, Null]),
      (3, [Null, Null, Null, Num 5, Str ''CHILE'']),
      (4, [Num 101, Num 1, Date 2025 3 1, Null, Null])]"

definition sample_typed :: frame where
  "sample_typed = sample_frame
     [(0, [Num 100, Num 1, Date 2025 1 15, Num 12, Str ''PERU'']),
      (1, [Num 100, Num 1, Date 2025 1 16, Null, Null]),
      (2, [Null, Null, Null, Null, Null]),
      (3, [Null, Null, Null, Num 5, Str ''CHILE'']),
      (4, [Num 101, Num 1, Date 2025 3 1, Null, Null])]"

definition sample_dedup :: frame where
  "sample_dedup = sample_frame
     [(0, [Num 100, Num 1, Date 2025 1 15, Num 12, Str ''PERU'']),
      (2, [Null, Null, Null, Null, Null]),
      (4, [Num 101, Num 1, Date 2025 3 1, Null, Null])]"

definition sample_core :: frame where
  "sample_core = sample_frame
     [(0, [Num 100, Num 1, Date 2025 1 15, Num 12, Str ''PERU'']),
      (2, [Null, Null, Null, Num 0, Str ''Unknown'']),
      (4, [Num 101, Num 1, Date 2025 3 1, Num 0, Str ''Unknown''])]"

definition sample_no_serie :: "(string \<times> frame) list" where
  "sample_no_serie =
     [(''2025-01'', \<lparr>columns = [NUMERO_FORMULARIO, FECHA], rows = [(0, [Num 100, Num 20250115])]\<rparr>)]"

section \<open>Stage 2: all periods empty\<close>

text \<open>
  C1. The claim: when every period's staging dataset is empty, \<^verbatim>\<open>transform_to_core\<close>
  logs an error and returns an empty dataset rather than raising. On the code, the list
  handed to \<^verbatim>\<open>pd.concat\<close> is then empty and \<^verbatim>\<open>pd.concat\<close> raises ValueError before
  the guard \<^verbatim>\<open>if all_data.empty\<close> is reached: nothing is logged and nothing is returned.
\<close>

theorem transform_to_core_all_empty_raises:
  "returned (transform_to_core L all_periods_missing) = Inl ValueError
   \<and> logged (transform_to_core L all_periods_missing) = []"
  by (simp add: transform_to_core_def all_periods_missing_def non_empty_frames_def
      is_empty_def empty_frame_def pd_concat_def)

section \<open>Stage 2: shapes that the steps preserve\<close>

lemma columns_map_column [simp]: "columns (map_column l f df) = columns df"
  by (simp add: map_column_def)

lemma length_rows_map_column [simp]: "length (rows (map_column l f df)) = length (rows df)"
  by (simp add: map_column_def)

lemma map_fst_rows_map_column [simp]: "map fst (rows (map_column l f df)) = map fst (rows df)"
  by (simp add: map_column_def comp_def)

lemma convert_numeric_columns:
  "convert_numeric L cs d = Inr d' \<Longrightarrow> columns d' = columns d"
  by (induction cs arbitrary: d) (auto split: if_splits)

lemma fill_numeric_columns [simp]: "columns (fill_numeric cs d) = columns d"
  by (induction cs arbitrary: d) auto

lemma fill_nulls_columns [simp]: "columns (fill_nulls d) = columns d"
  by (simp add: fill_nulls_def Let_def)

lemma first_seen_Nil_iff [simp]: "first_seen xs = [] \<longleftrightarrow> xs = []"
  by (cases xs) auto

lemma renumber_Nil_iff [simp]: "renumber rs = [] \<longleftrightarrow> rs = []"
  by (cases rs) (auto simp: renumber_def upt_rec)

lemma length_renumber [simp]: "length (renumber rs) = length rs"
  by (simp add: renumber_def)

lemma pd_concat_not_empty:
  assumes "list_all (\<lambda>df. \<not> is_empty df) dfs" and "pd_concat dfs = Inr d"
  shows "\<not> is_empty d"
proof -
  from assms(2) have ne: "dfs \<noteq> []" by (auto simp: pd_concat_def)
  then obtain x xs where dfs: "dfs = x # xs" by (cases dfs) auto
  with assms(1) have x: "columns x \<noteq> []" "rows x \<noteq> []" by (auto simp: is_empty_def)
  show ?thesis
    using assms(2) x unfolding pd_concat_def dfs
    by (auto simp: is_empty_def Let_def split: if_splits)
qed

lemma non_empty_frames_all: "list_all (\<lambda>df. \<not> is_empty df) (non_empty_frames s)"
  by (simp add: non_empty_frames_def list_all_iff)

text \<open>
  C7. When the concatenation succeeded and, after the labels are reconciled, one of
  NUMERO_FORMULARIO and NUMERO_SERIE is not a column, \<^verbatim>\<open>transform_to_core\<close> logs the list of
  the missing key columns (which is not empty) after the row count, writes no snapshot and
  returns the empty frame: none of the later steps runs.
\<close>

theorem missing_key_columns_hard_stop:
  assumes "pd_concat (non_empty_frames staging_dfs) = Inr all_data"
    and "NUMERO_FORMULARIO \<notin> set (columns (reconcile_columns L all_data))
         \<or> NUMERO_SERIE \<notin> set (columns (reconcile_columns L all_data))"
  shows "transform_to_core L staging_dfs =
           \<lparr>logged = [InfoIntegrated (length (rows all_data)),
                      ErrMissingColumns
                        (filter (\<lambda>col. col \<notin> set (columns (reconcile_columns L all_data)))
                           [NUMERO_FORMULARIO, NUMERO_SERIE])],
            parquet = None, returned = Inr empty_frame\<rparr>
         \<and> filter (\<lambda>col. col \<notin> set (columns (reconcile_columns L all_data)))
               [NUMERO_FORMULARIO, NUMERO_SERIE] \<noteq> []"
proof -
  have "\<not> is_empty all_data"
    using pd_concat_not_empty [OF non_empty_frames_all assms(1)] .
  then show ?thesis
    using assms by (auto simp: transform_to_core_def Let_def required_cols_def)
qed

subsection \<open>Cell-wise rewriting\<close>

lemma zip_map_zip:
  "zip xs (map g (zip xs ys)) = map (\<lambda>p. (fst p, g p)) (zip xs ys)"
proof (induction xs arbitrary: ys)
  case Nil
  then show ?case by simp
next
  case (Cons x xs)
  then show ?case by (cases ys) simp_all
qed

lemma map_column_cellwise:
  "map_column l f df = cellwise (\<lambda>c v. if c = l then f v else v) df"
  by (simp add: map_column_def cellwise_def map_cells_def case_prod_beta)

lemma columns_cellwise [simp]: "columns (cellwise g df) = columns df"
  by (simp add: cellwise_def)

lemma cellwise_cellwise:
  "cellwise g2 (cellwise g1 df) = cellwise (\<lambda>c v. g2 c (g1 c v)) df"
  by (simp add: cellwise_def zip_map_zip comp_def)

lemma map_snd_zip_same: "length ys = length xs \<Longrightarrow> map snd (zip xs ys) = ys"
  by (simp add: map_snd_zip)

lemma cellwise_id: "wf_frame df \<Longrightarrow> cellwise (\<lambda>c v. v) df = df"
proof -
  assume wf: "wf_frame df"
  have "map (\<lambda>r. (fst r, map snd (zip (columns df) (snd r)))) (rows df) = rows df"
    using wf by (intro map_idI) (auto simp: wf_frame_def list_all_iff)
  then show ?thesis by (simp add: cellwise_def)
qed

lemma cellwise_cong:
  assumes "\<And>c v. c \<in> set (columns df) \<Longrightarrow> g c v = h c v"
  shows "cellwise g df = cellwise h df"
proof -
  have "\<And>cs. map (\<lambda>p. g (fst p) (snd p)) (zip (columns df) cs)
            = map (\<lambda>p. h (fst p) (snd p)) (zip (columns df) cs)"
    by (rule map_cong) (auto dest!: set_zip_leftD simp: assms)
  then show ?thesis by (simp add: cellwise_def)
qed

lemma wf_cellwise: "wf_frame df \<Longrightarrow> wf_frame (cellwise g df)"
  by (auto simp: wf_frame_def cellwise_def list_all_iff)

lemma wf_map_column: "wf_frame df \<Longrightarrow> wf_frame (map_column l f df)"
  by (simp add: map_column_cellwise wf_cellwise)

lemma fillna_idem [simp]: "fillna d (fillna d v) = fillna d v"
  by (simp add: fillna_def)

lemma fill_numeric_cellwise:
  "wf_frame d \<Longrightarrow>
   fill_numeric cs d = cellwise (\<lambda>c v. if c \<in> set cs then fillna (Num 0) v else v) d"
proof (induction cs arbitrary: d)
  case Nil
  then show ?case by (simp add: cellwise_id)
next
  case (Cons col cs)
  show ?case
  proof (cases "col \<in> set (columns d)")
    case True
    have "fill_numeric (col # cs) d
          = cellwise (\<lambda>c v. if c \<in> set cs then fillna (Num 0) v else v)
              (cellwise (\<lambda>c v. if c = col then fillna (Num 0) v else v) d)"
      using True Cons.IH [OF wf_map_column [OF Cons.prems]]
      by (simp add: map_column_cellwise)
    also have "\<dots> = cellwise (\<lambda>c v. if c \<in> set (col # cs) then fillna (Num 0) v else v) d"
      unfolding cellwise_cellwise by (rule cellwise_cong) auto
    finally show ?thesis .
  next
    case False
    have "fill_numeric (col # cs) d
          = cellwise (\<lambda>c v. if c \<in> set cs then fillna (Num 0) v else v) d"
      using False Cons.IH [OF Cons.prems] by simp
    also have "\<dots> = cellwise (\<lambda>c v. if c \<in> set (col # cs) then fillna (Num 0) v else v) d"
      using False by (intro cellwise_cong) auto
    finally show ?thesis .
  qed
qed

lemma fill_nulls_cellwise:
  assumes "wf_frame d"
  shows "fill_nulls d = cellwise fill_cell d"
proof (cases "PAIS_DESTINO_FINAL \<in> set (columns d)")
  case True
  have "fill_nulls d = cellwise (\<lambda>c v. if c = PAIS_DESTINO_FINAL then fillna (Str ''Unknown'') v else v)
          (cellwise (\<lambda>c v. if c \<in> set numeric_cols then fillna (Num 0) v else v) d)"
    using True by (simp add: fill_nulls_def Let_def map_column_cellwise fill_numeric_cellwise [OF assms])
  also have "\<dots> = cellwise fill_cell d"
    unfolding cellwise_cellwise
    by (rule cellwise_cong) (auto simp: fill_cell_def numeric_cols_def)
  finally show ?thesis .
next
  case False
  have "fill_nulls d = cellwise (\<lambda>c v. if c \<in> set numeric_cols then fillna (Num 0) v else v) d"
    using False by (simp add: fill_nulls_def Let_def fill_numeric_cellwise [OF assms])
  also have "\<dots> = cellwise fill_cell d"
    using False by (intro cellwise_cong) (auto simp: fill_cell_def)
  finally show ?thesis .
qed

subsection \<open>First occurrences\<close>

lemma keep_first_subset: "set (keep_first key seen rs) \<subseteq> set rs"
  by (induction rs arbitrary: seen) auto

lemma keep_first_keys:
  "key ` set (keep_first key seen rs) = key ` set rs - set seen"
  by (induction rs arbitrary: seen) auto

lemma keep_first_distinct: "distinct (map key (keep_first key seen rs))"
proof (induction rs arbitrary: seen)
  case Nil
  then show ?case by simp
next
  case (Cons r rs)
  have "key r \<notin> key ` set (keep_first key (key r # seen) rs)"
    by (simp add: keep_first_keys)
  with Cons show ?case by auto
qed

lemma keep_first_earliest:
  "r \<in> set (keep_first key seen xs) \<Longrightarrow>
   \<exists>i<length xs. xs ! i = r \<and> (\<forall>j<i. key (xs ! j) \<noteq> key r) \<and> key r \<notin> set seen"
proof (induction xs arbitrary: seen)
  case Nil
  then show ?case by simp
next
  case (Cons x xs)
  show ?case
  proof (cases "key x \<in> set seen")
    case True
    with Cons.prems have "r \<in> set (keep_first key seen xs)" by simp
    from Cons.IH [OF this] obtain i where i: "i < length xs" "xs ! i = r"
      "\<forall>j<i. key (xs ! j) \<noteq> key r" "key r \<notin> set seen" by blast
    have "\<forall>j<Suc i. key ((x # xs) ! j) \<noteq> key r"
      using i True by (auto simp: nth_Cons split: nat.splits)
    with i show ?thesis by (intro exI [of _ "Suc i"]) auto
  next
    case False
    with Cons.prems consider "r = x" | "r \<in> set (keep_first key (key x # seen) xs)" by auto
    then show ?thesis
    proof cases
      case 1
      with False show ?thesis by (intro exI [of _ 0]) auto
    next
      case 2
      from Cons.IH [OF this] obtain i where i: "i < length xs" "xs ! i = r"
        "\<forall>j<i. key (xs ! j) \<noteq> key r" "key r \<notin> set (key x # seen)" by blast
      have "\<forall>j<Suc i. key ((x # xs) ! j) \<noteq> key r"
        using i by (auto simp: nth_Cons split: nat.splits)
      with i show ?thesis by (intro exI [of _ "Suc i"]) auto
    qed
  qed
qed

subsection \<open>Well-formed frames and index labels through the stages\<close>

lemma wf_frame_iff: "wf_frame df \<longleftrightarrow> (\<forall>cs\<in>set (map snd (rows df)). length cs = length (columns df))"
  by (auto simp: wf_frame_def list_all_iff)

lemma map_snd_renumber [simp]: "map snd (renumber rs) = map snd rs"
  by (simp add: renumber_def)

lemma map_fst_renumber [simp]: "map fst (renumber rs) = [0..<length rs]"
  by (simp add: renumber_def)

lemma wf_pd_concat:
  assumes "list_all wf_frame dfs" and "pd_concat dfs = Inr d"
  shows "wf_frame d"
proof (cases "list_all (\<lambda>df. columns df = columns (hd dfs)) dfs")
  case True
  with assms(2) have d: "columns d = columns (hd dfs)" "rows d = renumber (concat (map rows dfs))"
    by (auto simp: pd_concat_def split: if_splits)
  show ?thesis
    unfolding wf_frame_iff d map_snd_renumber
    using assms(1) True by (auto simp: list_all_iff wf_frame_def)
next
  case False
  with assms(2) have d: "columns d = first_seen (concat (map columns dfs))"
    "rows d = renumber (concat (map (\<lambda>df. map (reindex_row (columns df) (columns d)) (rows df)) dfs))"
    by (auto simp: pd_concat_def Let_def split: if_splits)
  show ?thesis
    unfolding wf_frame_iff
    by (subst d(2), unfold map_snd_renumber) (auto simp: reindex_row_def)
qed

lemma index_pd_concat:
  "pd_concat dfs = Inr d \<Longrightarrow> map fst (rows d) = [0..<length (rows d)]"
  by (auto simp: pd_concat_def Let_def split: if_splits)

lemma rows_reconcile_columns [simp]: "rows (reconcile_columns L d) = rows d"
  by (simp add: reconcile_columns_def Let_def rename_column_def)

lemma length_columns_reconcile [simp]:
  "length (columns (reconcile_columns L d)) = length (columns d)"
  by (simp add: reconcile_columns_def Let_def rename_column_def)

lemma wf_reconcile_columns: "wf_frame d \<Longrightarrow> wf_frame (reconcile_columns L d)"
  by (simp add: wf_frame_def)

lemma wf_convert_numeric:
  "wf_frame d \<Longrightarrow> convert_numeric L cs d = Inr d' \<Longrightarrow> wf_frame d'"
  by (induction cs arbitrary: d) (auto split: if_splits intro: wf_map_column)

lemma index_convert_numeric:
  "convert_numeric L cs d = Inr d' \<Longrightarrow> map fst (rows d') = map fst (rows d)"
  by (induction cs arbitrary: d) (auto split: if_splits)

lemma coerce_types_facts:
  assumes "coerce_types L d = Inr d'"
  shows "columns d' = columns d" and "map fst (rows d') = map fst (rows d)"
    and "wf_frame d \<Longrightarrow> wf_frame d'"
proof -
  from assms obtain d1 where d1: "parse_dates L d = Inr d1"
    and d': "convert_numeric L numeric_cols d1 = Inr d'"
    by (auto simp: coerce_types_def split: sum.splits)
  from d1 have e: "d1 = map_column FECHA (to_datetime L) d"
    by (auto simp: parse_dates_def split: if_splits)
  show "columns d' = columns d"
    using convert_numeric_columns [OF d'] e by simp
  show "map fst (rows d') = map fst (rows d)"
    using index_convert_numeric [OF d'] e by simp
  show "wf_frame d \<Longrightarrow> wf_frame d'"
    using wf_convert_numeric [OF _ d'] e by (simp add: wf_map_column)
qed

lemma typed_dataset_facts:
  assumes "typed_dataset L s = Inr T"
  shows "map fst (rows T) = [0..<length (rows T)]"
    and "list_all wf_frame (map snd s) \<Longrightarrow> wf_frame T"
proof -
  from assms obtain d where d: "pd_concat (non_empty_frames s) = Inr d"
    and T: "coerce_types L (reconcile_columns L d) = Inr T"
    by (auto simp: typed_dataset_def split: sum.splits)
  have "map fst (rows T) = map fst (rows d)"
    using coerce_types_facts(2) [OF T] by simp
  moreover have "length (rows T) = length (rows d)"
    using calculation by (metis length_map)
  ultimately show "map fst (rows T) = [0..<length (rows T)]"
    using index_pd_concat [OF d] by simp
  assume "list_all wf_frame (map snd s)"
  then have "list_all wf_frame (non_empty_frames s)"
    by (auto simp: non_empty_frames_def list_all_iff)
  from wf_pd_concat [OF this d] show "wf_frame T"
    using coerce_types_facts(3) [OF T] wf_reconcile_columns by blast
qed

lemma drop_duplicates_facts:
  assumes "drop_duplicates ls T = Inr D"
  shows "columns D = columns T" and "rows D = keep_first (row_key ls T) [] (rows T)"
    and "wf_frame T \<Longrightarrow> wf_frame D"
proof -
  from assms show c: "columns D = columns T" and r: "rows D = keep_first (row_key ls T) [] (rows T)"
    by (auto simp: drop_duplicates_def split: if_splits)
  assume "wf_frame T"
  then show "wf_frame D"
    using keep_first_subset [of "row_key ls T" "[]" "rows T"]
    unfolding wf_frame_def list_all_iff c r by blast
qed

subsection \<open>What a returned dataset is\<close>

lemma transform_returned:
  assumes "returned (transform_to_core L s) = Inr df"
  shows "df = empty_frame \<or>
         (\<exists>T D. typed_dataset L s = Inr T \<and> deduplicated L s = Inr D \<and> df = fill_nulls D
            \<and> drop_duplicates [NUMERO_FORMULARIO, NUMERO_SERIE] T = Inr D
            \<and> distinct (columns T) \<and> parquet (transform_to_core L s) = Some df)"
proof (cases "pd_concat (non_empty_frames s)")
  case (Inl e)
  with assms show ?thesis by (simp add: transform_to_core_def)
next
  case (Inr d)
  show ?thesis
  proof (cases "is_empty d \<or> filter (\<lambda>col. col \<notin> set (columns (reconcile_columns L d))) required_cols \<noteq> []")
    case True
    with assms Inr have "df = empty_frame"
      by (auto simp: transform_to_core_def Let_def split: if_splits)
    then show ?thesis ..
  next
    case False
    with assms Inr obtain T D where T: "coerce_types L (reconcile_columns L d) = Inr T"
      and D: "drop_duplicates [NUMERO_FORMULARIO, NUMERO_SERIE] T = Inr D"
      and P: "to_parquet (fill_nulls D) = Inr df"
      by (auto simp: transform_to_core_def Let_def split: if_splits sum.splits)
    from P have df: "df = fill_nulls D" and dist: "distinct (columns (fill_nulls D))"
      by (auto simp: to_parquet_def split: if_splits)
    have "typed_dataset L s = Inr T" using Inr T by (simp add: typed_dataset_def)
    moreover from this have "deduplicated L s = Inr D" using D by (simp add: deduplicated_def)
    moreover have "distinct (columns T)"
      using dist drop_duplicates_facts(1) [OF D] by simp
    moreover have "parquet (transform_to_core L s) = Some df"
      using False Inr T D P by (auto simp: transform_to_core_def Let_def)
    ultimately show ?thesis using df D by blast
  qed
qed


subsection \<open>Keys as pairs\<close>

lemma cell_at_Cons:
  "cell_at (c # cols) (v # vs) x = (if x = c then v else cell_at cols vs x)"
  by (simp add: cell_at_def)

lemma cell_at_absent:
  "c \<notin> set cols \<Longrightarrow> cell_at cols vs c = Null"
proof -
  assume "c \<notin> set cols"
  then have "map_of (zip cols vs) c = None"
    by (auto simp: map_of_eq_None_iff dest: set_zip_leftD)
  then show ?thesis by (simp add: cell_at_def)
qed

lemma key_cells_Cons:
  "key_cells ls (c # cols) (v # vs) =
     (if c \<in> set ls then v # key_cells ls cols vs else key_cells ls cols vs)"
  by (simp add: key_cells_def)

lemma key_cells_eq_iff:
  "distinct cols \<Longrightarrow> length cs = length cols \<Longrightarrow> length cs' = length cols \<Longrightarrow>
   (key_cells ls cols cs = key_cells ls cols cs')
     \<longleftrightarrow> (\<forall>c\<in>set ls. cell_at cols cs c = cell_at cols cs' c)"
proof (induction cols arbitrary: cs cs')
  case Nil
  then show ?case by (simp add: key_cells_def cell_at_def)
next
  case (Cons c cols)
  from Cons.prems obtain v vs where cs: "cs = v # vs" "length vs = length cols"
    by (cases cs) auto
  from Cons.prems obtain v' vs' where cs': "cs' = v' # vs'" "length vs' = length cols"
    by (cases cs') auto
  from Cons.prems have c: "c \<notin> set cols" and d: "distinct cols" by auto
  have IH: "(key_cells ls cols vs = key_cells ls cols vs')
     \<longleftrightarrow> (\<forall>x\<in>set ls. cell_at cols vs x = cell_at cols vs' x)"
    using Cons.IH [OF d cs(2) cs'(2)] .
  show ?case
    unfolding cs cs' key_cells_Cons cell_at_Cons
    using IH cell_at_absent [OF c] by (cases "c \<in> set ls") auto
qed

lemma row_key_eq_key_pair:
  assumes "distinct (columns T)" "length (snd r) = length (columns T)"
    "length (snd r') = length (columns T)"
  shows "row_key [NUMERO_FORMULARIO, NUMERO_SERIE] T r = row_key [NUMERO_FORMULARIO, NUMERO_SERIE] T r'
         \<longleftrightarrow> key_pair T r = key_pair T r'"
  unfolding row_key_def key_pair_def
  using key_cells_eq_iff [OF assms, of "[NUMERO_FORMULARIO, NUMERO_SERIE]"] by auto

lemma map_of_cellwise:
  "map_of (map (\<lambda>p. (fst p, g (fst p) (snd p))) ps) c = map_option (g c) (map_of ps c)"
  by (induction ps) auto

lemma cell_at_cellwise:
  "cell_at cols (map (\<lambda>p. g (fst p) (snd p)) (zip cols cs)) c =
     (case map_of (zip cols cs) c of Some v \<Rightarrow> g c v | None \<Rightarrow> Null)"
  unfolding cell_at_def zip_map_zip map_of_cellwise
  by (cases "map_of (zip cols cs) c") simp_all

lemma fill_cell_key [simp]:
  "fill_cell NUMERO_FORMULARIO v = v" "fill_cell NUMERO_SERIE v = v"
  by (simp_all add: fill_cell_def numeric_cols_def)

lemma cell_at_fill_key:
  "c = NUMERO_FORMULARIO \<or> c = NUMERO_SERIE \<Longrightarrow>
   cell_at cols (map (\<lambda>p. fill_cell (fst p) (snd p)) (zip cols cs)) c = cell_at cols cs c"
  unfolding cell_at_cellwise by (auto simp: cell_at_def split: option.splits)

lemma key_pair_fill_nulls:
  assumes "wf_frame D" "r \<in> set (rows D)"
  shows "\<exists>r'. r' \<in> set (rows (fill_nulls D)) \<and> fst r' = fst r
              \<and> key_pair (fill_nulls D) r' = key_pair D r"
proof -
  let ?r' = "(fst r, map (\<lambda>p. fill_cell (fst p) (snd p)) (zip (columns D) (snd r)))"
  have "?r' \<in> set (rows (fill_nulls D))"
    using assms(2) by (auto simp: fill_nulls_cellwise [OF assms(1)] cellwise_def)
  moreover have "key_pair (fill_nulls D) ?r' = key_pair D r"
    by (simp add: key_pair_def cell_at_fill_key)
  ultimately show ?thesis by (intro exI [of _ ?r']) simp
qed

lemma key_pair_fill_nulls_rows:
  assumes "wf_frame D"
  shows "map (key_pair (fill_nulls D)) (rows (fill_nulls D)) = map (key_pair D) (rows D)"
    and "map fst (rows (fill_nulls D)) = map fst (rows D)"
  by (simp_all add: fill_nulls_cellwise [OF assms] cellwise_def comp_def key_pair_def
      cell_at_fill_key)

subsection \<open>Deduplication keeps the first occurrence of every key\<close>

lemma dedup_first_occurrences:
  assumes T: "typed_dataset L s = Inr T"
    and D: "drop_duplicates [NUMERO_FORMULARIO, NUMERO_SERIE] T = Inr D"
    and dist: "distinct (columns T)"
    and wf: "list_all wf_frame (map snd s)"
  shows "distinct (map (key_pair T) (rows D))"
    and "key_pair T ` set (rows D) = key_pair T ` set (rows T)"
    and "\<forall>r\<in>set (rows D). fst r < length (rows T) \<and> rows T ! fst r = r
           \<and> (\<forall>j<fst r. key_pair T (rows T ! j) \<noteq> key_pair T r)"
proof -
  let ?k = "row_key [NUMERO_FORMULARIO, NUMERO_SERIE] T"
  have wfT: "wf_frame T" using typed_dataset_facts(2) [OF T wf] .
  have idx: "map fst (rows T) = [0..<length (rows T)]" using typed_dataset_facts(1) [OF T] .
  have rows: "rows D = keep_first ?k [] (rows T)" using drop_duplicates_facts(2) [OF D] .
  have sub: "set (rows D) \<subseteq> set (rows T)" unfolding rows by (rule keep_first_subset)
  have len: "\<And>r. r \<in> set (rows T) \<Longrightarrow> length (snd r) = length (columns T)"
    using wfT by (auto simp: wf_frame_def list_all_iff)
  have eq: "\<And>r r'. r \<in> set (rows T) \<Longrightarrow> r' \<in> set (rows T) \<Longrightarrow>
      ?k r = ?k r' \<longleftrightarrow> key_pair T r = key_pair T r'"
    using row_key_eq_key_pair [OF dist] len by blast
  have dk: "distinct (map ?k (rows D))" unfolding rows by (rule keep_first_distinct)
  then have "distinct (rows D)" and inj: "inj_on ?k (set (rows D))"
    by (auto simp: distinct_map)
  moreover have "inj_on (key_pair T) (set (rows D))"
    using inj sub eq unfolding inj_on_def by blast
  ultimately show "distinct (map (key_pair T) (rows D))" by (simp add: distinct_map)
  have ks: "?k ` set (rows D) = ?k ` set (rows T)"
    unfolding rows by (simp add: keep_first_keys)
  show "key_pair T ` set (rows D) = key_pair T ` set (rows T)"
  proof (intro equalityI subsetI)
    fix k assume "k \<in> key_pair T ` set (rows D)"
    then show "k \<in> key_pair T ` set (rows T)" using sub by auto
  next
    fix k assume "k \<in> key_pair T ` set (rows T)"
    then obtain r where r: "r \<in> set (rows T)" "k = key_pair T r" by auto
    then have "?k r \<in> ?k ` set (rows D)" using ks by auto
    then obtain r' where r': "r' \<in> set (rows D)" "?k r' = ?k r" by auto
    moreover from r'(1) sub have "r' \<in> set (rows T)" by blast
    ultimately have "key_pair T r' = k" using r eq [of r' r] by simp
    with r'(1) show "k \<in> key_pair T ` set (rows D)" by auto
  qed
  show "\<forall>r\<in>set (rows D). fst r < length (rows T) \<and> rows T ! fst r = r
           \<and> (\<forall>j<fst r. key_pair T (rows T ! j) \<noteq> key_pair T r)"
  proof
    fix r assume rD: "r \<in> set (rows D)"
    then have "r \<in> set (keep_first ?k [] (rows T))" by (simp add: rows)
    from keep_first_earliest [OF this] obtain i where i: "i < length (rows T)"
      "rows T ! i = r" "\<forall>j<i. ?k (rows T ! j) \<noteq> ?k r" by blast
    have "fst (rows T ! i) = map fst (rows T) ! i" using i(1) by simp
    also have "\<dots> = i" using i(1) by (simp add: idx)
    finally have fi: "fst r = i" using i(2) by simp
    have "\<forall>j<i. key_pair T (rows T ! j) \<noteq> key_pair T r"
    proof (intro allI impI)
      fix j assume j: "j < i"
      then have "rows T ! j \<in> set (rows T)" using i(1) by simp
      moreover have "r \<in> set (rows T)" using rD sub by auto
      ultimately show "key_pair T (rows T ! j) \<noteq> key_pair T r"
        using eq i(3) j by blast
    qed
    with i fi show "fst r < length (rows T) \<and> rows T ! fst r = r
           \<and> (\<forall>j<fst r. key_pair T (rows T ! j) \<noteq> key_pair T r)" by simp
  qed
qed

section \<open>Stage 2: the claims\<close>

lemma key_pair_cong: "columns D = columns T \<Longrightarrow> key_pair D = key_pair T"
  by (rule ext) (simp add: key_pair_def)

lemma count_distinct_map:
  "distinct (map f xs) \<Longrightarrow> y \<in> f ` set xs \<Longrightarrow> length (filter (\<lambda>x. f x = y) xs) = 1"
proof (induction xs)
  case Nil
  then show ?case by simp
next
  case (Cons x xs)
  show ?case
  proof (cases "f x = y")
    case True
    with Cons.prems have "y \<notin> f ` set xs" by auto
    then have "filter (\<lambda>x. f x = y) xs = []" by (auto simp: filter_empty_conv)
    with True show ?thesis by simp
  next
    case False
    with Cons show ?thesis by auto
  qed
qed

text \<open>
  C2. In a dataset that \<^verbatim>\<open>transform_to_core\<close> returns, no two rows have the same pair
  (NUMERO_FORMULARIO, NUMERO_SERIE). Unless it is the empty frame of an early return, it is
  the null-filling of rows \<open>D\<close> kept from the typed dataset \<open>T\<close>, whose rows stand in
  concatenation order with index labels 0, 1, 2, ... (the frames in the order of the
  mapping, each in its own row order): every kept row is the row of \<open>T\<close> at its index
  label, no earlier row of \<open>T\<close> has its key, and every key of \<open>T\<close> is kept.
\<close>

theorem core_keys_unique_first_kept:
  assumes "returned (transform_to_core L s) = Inr df" and "list_all wf_frame (map snd s)"
  shows "distinct (map (key_pair df) (rows df)) \<and>
         (df = empty_frame \<or>
          (\<exists>T D. typed_dataset L s = Inr T \<and> df = fill_nulls D \<and> columns D = columns T
             \<and> map fst (rows T) = [0..<length (rows T)]
             \<and> key_pair T ` set (rows D) = key_pair T ` set (rows T)
             \<and> (\<forall>r\<in>set (rows D). fst r < length (rows T) \<and> rows T ! fst r = r
                    \<and> (\<forall>j<fst r. key_pair T (rows T ! j) \<noteq> key_pair T r))))"
proof (cases "df = empty_frame")
  case True
  then show ?thesis by (simp add: empty_frame_def)
next
  case False
  with transform_returned [OF assms(1)] obtain T D where T: "typed_dataset L s = Inr T"
    and df: "df = fill_nulls D"
    and D: "drop_duplicates [NUMERO_FORMULARIO, NUMERO_SERIE] T = Inr D"
    and dist: "distinct (columns T)" by blast
  have wfT: "wf_frame T" using typed_dataset_facts(2) [OF T assms(2)] .
  have wfD: "wf_frame D" using drop_duplicates_facts(3) [OF D wfT] .
  have cols: "columns D = columns T" using drop_duplicates_facts(1) [OF D] .
  note fo = dedup_first_occurrences [OF T D dist assms(2)]
  have "map (key_pair df) (rows df) = map (key_pair T) (rows D)"
    unfolding df key_pair_fill_nulls_rows(1) [OF wfD] key_pair_cong [OF cols] ..
  with fo(1) have "distinct (map (key_pair df) (rows df))" by simp
  moreover have "\<exists>T D. typed_dataset L s = Inr T \<and> df = fill_nulls D \<and> columns D = columns T
             \<and> map fst (rows T) = [0..<length (rows T)]
             \<and> key_pair T ` set (rows D) = key_pair T ` set (rows T)
             \<and> (\<forall>r\<in>set (rows D). fst r < length (rows T) \<and> rows T ! fst r = r
                    \<and> (\<forall>j<fst r. key_pair T (rows T ! j) \<noteq> key_pair T r))"
    using T df cols typed_dataset_facts(1) [OF T] fo(2) fo(3) by blast
  ultimately show ?thesis by blast
qed


text \<open>
  C6. In a dataset that \<^verbatim>\<open>transform_to_core\<close> returns, no cell under one of the five
  measure labels or under PAIS_DESTINO_FINAL is null. Unless it is the empty frame of an
  early return, it is the deduplicated dataset with exactly this change, cell by cell: a
  null under a measure label is 0, a null under PAIS_DESTINO_FINAL is "Unknown", and every
  other cell, null or not, is what it was.
\<close>

theorem nulls_filled_in_measures_and_country_only:
  assumes "returned (transform_to_core L s) = Inr df" and "list_all wf_frame (map snd s)"
  shows "(\<forall>r\<in>set (rows df). \<forall>p\<in>set (zip (columns df) (snd r)).
            (fst p \<in> set numeric_cols \<or> fst p = PAIS_DESTINO_FINAL) \<longrightarrow> snd p \<noteq> Null)
         \<and> (df = empty_frame \<or>
            (\<exists>D. deduplicated L s = Inr D \<and> columns df = columns D
               \<and> rows df =
                   map (\<lambda>r. (fst r,
                          map (\<lambda>p. if fst p \<in> set numeric_cols
                                    then (if snd p = Null then Num 0 else snd p)
                                    else if fst p = PAIS_DESTINO_FINAL
                                    then (if snd p = Null then Str ''Unknown'' else snd p)
                                    else snd p)
                            (zip (columns D) (snd r))))
                     (rows D)))"
proof (cases "df = empty_frame")
  case True
  then show ?thesis by (simp add: empty_frame_def)
next
  case False
  with transform_returned [OF assms(1)] obtain T D where T: "typed_dataset L s = Inr T"
    and dd: "deduplicated L s = Inr D"
    and df: "df = fill_nulls D"
    and D: "drop_duplicates [NUMERO_FORMULARIO, NUMERO_SERIE] T = Inr D" by blast
  have wfT: "wf_frame T" using typed_dataset_facts(2) [OF T assms(2)] .
  have wfD: "wf_frame D" using drop_duplicates_facts(3) [OF D wfT] .
  have cw: "df = cellwise fill_cell D" unfolding df by (rule fill_nulls_cellwise [OF wfD])
  have rows: "rows df = map (\<lambda>r. (fst r, map (\<lambda>p. fill_cell (fst p) (snd p)) (zip (columns D) (snd r)))) (rows D)"
    unfolding cw by (simp add: cellwise_def)
  have 1: "\<forall>r\<in>set (rows df). \<forall>p\<in>set (zip (columns df) (snd r)).
            (fst p \<in> set numeric_cols \<or> fst p = PAIS_DESTINO_FINAL) \<longrightarrow> snd p \<noteq> Null"
    unfolding rows unfolding cw
    by (auto simp: zip_map_zip fill_cell_def fillna_def)
  have 2: "rows df =
                   map (\<lambda>r. (fst r,
                          map (\<lambda>p. if fst p \<in> set numeric_cols
                                    then (if snd p = Null then Num 0 else snd p)
                                    else if fst p = PAIS_DESTINO_FINAL
                                    then (if snd p = Null then Str ''Unknown'' else snd p)
                                    else snd p)
                            (zip (columns D) (snd r))))
                     (rows D)"
    unfolding rows fill_cell_def fillna_def ..
  from 1 2 dd cw show ?thesis by auto
qed


subsection \<open>The model on the sample\<close>

lemma sample_to_datetime:
  "to_datetime sample_lib (Num 20250115) = Date 2025 1 15"
  "to_datetime sample_lib (Num 20250116) = Date 2025 1 16"
  "to_datetime sample_lib (Num 20250301) = Date 2025 3 1"
  "to_datetime sample_lib (Num 20250230) = Null"
  "to_datetime sample_lib (Str ''bad'') = Null"
  by (simp_all add: to_datetime_def sample_lib_def sample_str_def decimal.simps strict_Ymd_def
      digit_of_def days_in_month_def)

lemma sample_to_numeric:
  "to_numeric sample_lib (Str ''12'') = Num 12"
  "to_numeric sample_lib (Str ''x'') = Null"
  "to_numeric sample_lib (Num 5) = Num 5"
  "to_numeric sample_lib Null = Null"
  by (simp_all add: to_numeric_def sample_lib_def sample_numeric_def digit_of_def)

lemma sample_wf: "list_all wf_frame (map snd sample_staging)"
  by (simp add: sample_staging_def wf_frame_def sample_frame_def empty_frame_def)

lemma sample_concat: "pd_concat (non_empty_frames sample_staging) = Inr sample_integrated"
  by (simp add: sample_staging_def non_empty_frames_def is_empty_def empty_frame_def pd_concat_def
        renumber_def upt_rec sample_frame_def sample_integrated_def)

lemma sample_reconcile: "reconcile_columns sample_lib (sample_frame rs) = sample_frame rs"
  by (simp add: reconcile_columns_def sample_frame_def sample_lib_def ascii_upper_def ascii_strip_def ascii_upper_char_def
      ascii_isspace_def rename_column_def Let_def)

lemma sample_parse: "parse_dates sample_lib sample_integrated = Inr sample_dated"
  by (simp add: parse_dates_def map_column_def map_cells_def sample_frame_def sample_to_datetime
      sample_integrated_def sample_dated_def)

lemma sample_convert: "convert_numeric sample_lib numeric_cols sample_dated = Inr sample_typed"
  by (simp add: numeric_cols_def map_column_def map_cells_def sample_frame_def sample_to_numeric
      sample_typed_def sample_dated_def)

lemma sample_coerce: "coerce_types sample_lib (reconcile_columns sample_lib sample_integrated) = Inr sample_typed"
proof -
  have "reconcile_columns sample_lib sample_integrated = sample_integrated"
    unfolding sample_integrated_def by (rule sample_reconcile)
  then show ?thesis by (simp add: coerce_types_def sample_parse sample_convert)
qed


lemma sample_drop: "drop_duplicates [NUMERO_FORMULARIO, NUMERO_SERIE] sample_typed = Inr sample_dedup"
  by (simp add: drop_duplicates_def sample_typed_def sample_frame_def row_key_def key_cells_def
      sample_dedup_def)

lemma sample_fill: "fill_nulls sample_dedup = sample_core"
  by (simp add: fill_nulls_def numeric_cols_def sample_frame_def map_column_def map_cells_def
      fillna_def sample_core_def sample_dedup_def)

lemma sample_parquet: "to_parquet sample_core = Inr sample_core"
  by (simp add: to_parquet_def sample_core_def sample_frame_def)

lemma sample_integrated_facts:
  "\<not> is_empty sample_integrated"
  "filter (\<lambda>col. col \<notin> set (columns (reconcile_columns sample_lib sample_integrated))) required_cols = []"
  "length (rows sample_integrated) = 5"
proof -
  have r: "reconcile_columns sample_lib sample_integrated = sample_integrated"
    unfolding sample_integrated_def by (rule sample_reconcile)
  show "\<not> is_empty sample_integrated"
    by (simp add: is_empty_def sample_integrated_def sample_frame_def)
  show "filter (\<lambda>col. col \<notin> set (columns (reconcile_columns sample_lib sample_integrated))) required_cols = []"
    unfolding r by (simp add: sample_integrated_def sample_frame_def required_cols_def)
  show "length (rows sample_integrated) = 5"
    by (simp add: sample_integrated_def sample_frame_def)
qed

lemma sample_transform:
  "transform_to_core sample_lib sample_staging =
     \<lparr>logged = [InfoIntegrated 5, InfoCoreSaved], parquet = Some sample_core,
      returned = Inr sample_core\<rparr>"
  by (simp add: transform_to_core_def sample_concat sample_integrated_facts Let_def
      sample_coerce sample_drop sample_fill sample_parquet)

lemma sample_core_not_empty: "sample_core \<noteq> empty_frame"
  by (simp add: sample_core_def sample_frame_def empty_frame_def)

subsection \<open>Witnesses\<close>

theorem missing_key_columns_hard_stop_witness:
  "transform_to_core sample_lib sample_no_serie =
     \<lparr>logged = [InfoIntegrated 1, ErrMissingColumns [NUMERO_SERIE]], parquet = None,
      returned = Inr empty_frame\<rparr>"
proof -
  let ?d = "\<lparr>columns = [NUMERO_FORMULARIO, FECHA], rows = [(0, [Num 100, Num 20250115])]\<rparr>"
  have h1: "pd_concat (non_empty_frames sample_no_serie) = Inr ?d"
    by (simp add: sample_no_serie_def non_empty_frames_def is_empty_def pd_concat_def renumber_def)
  have r: "columns (reconcile_columns sample_lib ?d) = [NUMERO_FORMULARIO, FECHA]"
    by (simp add: reconcile_columns_def sample_lib_def ascii_upper_def ascii_strip_def ascii_upper_char_def
      ascii_isspace_def rename_column_def Let_def)
  have h2: "NUMERO_FORMULARIO \<notin> set (columns (reconcile_columns sample_lib ?d))
         \<or> NUMERO_SERIE \<notin> set (columns (reconcile_columns sample_lib ?d))"
    unfolding r by simp
  from missing_key_columns_hard_stop [OF h1 h2] show ?thesis
    unfolding r by simp
qed

theorem core_keys_unique_first_kept_witness:
  "returned (transform_to_core sample_lib sample_staging) = Inr sample_core
   \<and> distinct (map (key_pair sample_core) (rows sample_core))"
proof -
  have h: "returned (transform_to_core sample_lib sample_staging) = Inr sample_core"
    by (simp add: sample_transform)
  from core_keys_unique_first_kept [OF h sample_wf] h show ?thesis by blast
qed


theorem nulls_filled_in_measures_and_country_only_witness:
  "returned (transform_to_core sample_lib sample_staging) = Inr sample_core
   \<and> (\<exists>D. deduplicated sample_lib sample_staging = Inr D \<and> columns sample_core = columns D
          \<and> rows sample_core =
                   map (\<lambda>r. (fst r,
                          map (\<lambda>p. if fst p \<in> set numeric_cols
                                    then (if snd p = Null then Num 0 else snd p)
                                    else if fst p = PAIS_DESTINO_FINAL
                                    then (if snd p = Null then Str ''Unknown'' else snd p)
                                    else snd p)
                            (zip (columns D) (snd r))))
                     (rows D))"
proof -
  have h: "returned (transform_to_core sample_lib sample_staging) = Inr sample_core"
    by (simp add: sample_transform)
  from nulls_filled_in_measures_and_country_only [OF h sample_wf] sample_core_not_empty h
  show ?thesis by blast
qed


section \<open>Stage 3: dimensions\<close>

lemma cell_at_append_left:
  "length cs = length cols \<Longrightarrow> c \<in> set cols \<Longrightarrow>
   cell_at (cols @ extra) (cs @ rest) c = cell_at cols cs c"
proof -
  assume l: "length cs = length cols" and c: "c \<in> set cols"
  then have "c \<in> fst ` set (zip cols cs)" by (simp add: set_zip_leftD) (metis c fst_conv image_iff in_set_impl_in_set_zip1 l)
  then have "c \<in> dom (map_of (zip cols cs))" by (simp add: dom_map_of_conv_image_fst)
  then obtain v where "map_of (zip cols cs) c = Some v" by auto
  then show ?thesis using l by (simp add: cell_at_def map_add_def)
qed

lemma cell_at_append_right:
  "length cs = length cols \<Longrightarrow> c \<notin> set cols \<Longrightarrow>
   cell_at (cols @ extra) (cs @ rest) c = cell_at extra rest c"
proof -
  assume l: "length cs = length cols" and c: "c \<notin> set cols"
  then have n: "map_of (zip cols cs) c = None"
    by (auto simp: map_of_eq_None_iff dest: set_zip_leftD)
  have "zip (cols @ extra) (cs @ rest) = zip cols cs @ zip extra rest"
    using l by simp
  then show ?thesis using n by (simp add: cell_at_def map_add_def)
qed

lemma map_cell_at_self:
  "distinct attrs \<Longrightarrow> length t = length attrs \<Longrightarrow> map (cell_at attrs t) attrs = t"
proof (induction attrs arbitrary: t)
  case Nil
  then show ?case by simp
next
  case (Cons a attrs)
  then obtain v vs where t: "t = v # vs" "length vs = length attrs" by (cases t) auto
  have h: "map (cell_at (a # attrs) (v # vs)) attrs = map (cell_at attrs vs) attrs"
    using Cons.prems(1) by (intro map_cong) (auto simp: cell_at_Cons)
  have "map (cell_at (a # attrs) (v # vs)) (a # attrs)
        = v # map (cell_at (a # attrs) (v # vs)) attrs"
    by (simp add: cell_at_Cons)
  also have "\<dots> = v # map (cell_at attrs vs) attrs" by (simp only: h)
  also have "\<dots> = v # vs" using Cons.IH [OF _ t(2)] Cons.prems(1) by simp
  finally show ?case by (simp only: t(1))
qed

lemma key_cells_absent: "l \<notin> set cols \<Longrightarrow> key_cells [l] cols cs = []"
  by (auto simp: key_cells_def filter_empty_conv dest: set_zip_leftD)

lemma key_cells_single:
  "count_list cols l = 1 \<Longrightarrow> length cs = length cols \<Longrightarrow>
   key_cells [l] cols cs = [cell_at cols cs l]"
proof (induction cols arbitrary: cs)
  case Nil
  then show ?case by simp
next
  case (Cons c cols)
  then obtain v vs where cs: "cs = v # vs" "length vs = length cols" by (cases cs) auto
  show ?case
  proof (cases "c = l")
    case True
    with Cons.prems have "count_list cols l = 0" by simp
    then have "l \<notin> set cols" by (simp add: count_list_0_iff)
    then show ?thesis using True cs by (simp add: key_cells_Cons cell_at_Cons key_cells_absent)
  next
    case False
    with Cons cs show ?thesis by (simp add: key_cells_Cons cell_at_Cons)
  qed
qed

lemma concat_map_singletons:
  "(\<And>x. x \<in> set xs \<Longrightarrow> f x = [g x]) \<Longrightarrow> concat (map f xs) = map g xs"
  by (induction xs) simp_all

lemma filter_eq_replicate: "filter (\<lambda>c. c = l) cols = replicate (count_list cols l) l"
  by (induction cols) auto

lemma select_columns_unique:
  assumes "select_columns attrs df = Inr sel"
    and "\<forall>a\<in>set attrs. count_list (columns df) a = 1"
    and "wf_frame df"
  shows "columns sel = attrs"
    and "rows sel = map (\<lambda>r. (fst r, join_key attrs df r)) (rows df)"
proof -
  from assms(1) have c: "columns sel = concat (map (\<lambda>l. filter (\<lambda>c. c = l) (columns df)) attrs)"
    and r: "rows sel = map (\<lambda>r. (fst r, concat (map (\<lambda>l. key_cells [l] (columns df) (snd r)) attrs))) (rows df)"
    by (auto simp: select_columns_def split: if_splits)
  have "concat (map (\<lambda>l. filter (\<lambda>c. c = l) (columns df)) attrs) = map (\<lambda>l. l) attrs"
    using assms(2) by (intro concat_map_singletons) (simp add: filter_eq_replicate)
  then show "columns sel = attrs" unfolding c by simp
  have "\<And>r. r \<in> set (rows df) \<Longrightarrow>
      concat (map (\<lambda>l. key_cells [l] (columns df) (snd r)) attrs) = join_key attrs df r"
  proof -
    fix r assume "r \<in> set (rows df)"
    then have len: "length (snd r) = length (columns df)"
      using assms(3) by (auto simp: wf_frame_def list_all_iff)
    show "concat (map (\<lambda>l. key_cells [l] (columns df) (snd r)) attrs) = join_key attrs df r"
      unfolding join_key_def
      using assms(2) len by (intro concat_map_singletons) (simp add: key_cells_single)
  qed
  then show "rows sel = map (\<lambda>r. (fst r, join_key attrs df r)) (rows df)"
    unfolding r by (intro map_cong) auto
qed

lemma key_cells_all:
  "length cs = length cols \<Longrightarrow> key_cells cols cols cs = cs"
proof -
  assume l: "length cs = length cols"
  have "filter (\<lambda>p. fst p \<in> set cols) (zip cols cs) = zip cols cs"
    by (auto simp: filter_id_conv dest: set_zip_leftD)
  then show ?thesis using l by (simp add: key_cells_def)
qed

lemma nth_renumber: "i < length rs \<Longrightarrow> renumber rs ! i = (i, snd (rs ! i))"
  by (simp add: renumber_def)

lemma map_renumber: "map f (renumber rs) = map (\<lambda>i. f (i, snd (rs ! i))) [0..<length rs]"
  by (rule nth_equalityI) (simp_all add: nth_renumber)

lemma zip_renumber_upt:
  "zip (renumber rs) (map h [0..<length rs]) = map (\<lambda>i. ((i, snd (rs ! i)), h i)) [0..<length rs]"
  by (rule nth_equalityI) (simp_all add: nth_renumber)

text \<open>The frame a dimension starts from: distinct tuples, numbered from 1.\<close>

lemma dimension_frame_shape:
  assumes D: "dimension_frame attrs id_label core = Inr D"
    and uniq: "\<forall>a\<in>set attrs. count_list (columns core) a = 1"
    and wf: "wf_frame core"
    and fresh_id: "id_label \<notin> set attrs"
  shows "columns D = attrs @ [id_label]"
    and "wf_frame D"
    and "distinct (map (\<lambda>r. take (length attrs) (snd r)) (rows D))"
    and "set (map (\<lambda>r. take (length attrs) (snd r)) (rows D)) = set (map (join_key attrs core) (rows core))"
    and "map (\<lambda>r. cell_at (columns D) (snd r) id_label) (rows D)
           = map (\<lambda>i. Num (of_nat i)) [1..<Suc (length (rows D))]"
proof -
  from D obtain sel where sel: "select_columns attrs core = Inr sel"
    and DD: "D = set_column id_label (index_plus_1 (reset_index (drop_duplicates_all sel)))
                   (reset_index (drop_duplicates_all sel))"
    by (auto simp: dimension_frame_def Let_def split: sum.splits)
  note su = select_columns_unique [OF sel uniq wf]
  define kept where "kept = keep_first (row_key (columns sel) sel) [] (rows sel)"
  define d where "d = reset_index (drop_duplicates_all sel)"
  have dcols: "columns d = attrs" by (simp add: d_def reset_index_def drop_duplicates_all_def su(1))
  have drows: "rows d = renumber kept" by (simp add: d_def reset_index_def drop_duplicates_all_def kept_def)
  have sel_len: "\<And>r. r \<in> set (rows sel) \<Longrightarrow> length (snd r) = length attrs"
    unfolding su(2) by (auto simp: join_key_def)
  have key: "\<And>r. r \<in> set (rows sel) \<Longrightarrow> row_key (columns sel) sel r = snd r"
    by (simp add: row_key_def su(1) key_cells_all sel_len)
  have ksub: "set kept \<subseteq> set (rows sel)" unfolding kept_def by (rule keep_first_subset)
  have "distinct (map (row_key (columns sel) sel) kept)" unfolding kept_def by (rule keep_first_distinct)
  moreover have "map (row_key (columns sel) sel) kept = map snd kept"
    using ksub key by (intro map_cong) auto
  ultimately have dist: "distinct (map snd kept)" by simp
  have "row_key (columns sel) sel ` set kept = row_key (columns sel) sel ` set (rows sel)"
    unfolding kept_def by (simp add: keep_first_keys)
  moreover have "row_key (columns sel) sel ` set kept = snd ` set kept"
    using ksub key by (intro image_cong) auto
  moreover have "row_key (columns sel) sel ` set (rows sel) = snd ` set (rows sel)"
    using key by (intro image_cong) auto
  ultimately have keys: "snd ` set kept = snd ` set (rows sel)" by simp
  have tuples: "snd ` set (rows sel) = set (map (join_key attrs core) (rows core))"
    unfolding su(2) by (auto simp: image_iff)
  have Drows: "rows D = map (\<lambda>p. (fst (fst p), snd (fst p) @ [snd p])) (zip (renumber kept) (index_plus_1 d))"
    and Dcols: "columns D = attrs @ [id_label]"
    using DD fresh_id unfolding d_def [symmetric] by (simp_all add: set_column_def dcols drows)
  show "columns D = attrs @ [id_label]" by (rule Dcols)
  have ip: "index_plus_1 d = map (\<lambda>i. Num (of_nat (Suc i))) [0..<length kept]"
    unfolding index_plus_1_def drows map_renumber by simp
  have Drows': "rows D = map (\<lambda>i. (i, snd (kept ! i) @ [Num (of_nat (Suc i))])) [0..<length kept]"
    unfolding Drows ip zip_renumber_upt by simp
  have klen: "\<And>i. i < length kept \<Longrightarrow> length (snd (kept ! i)) = length attrs"
    using ksub sel_len by (meson nth_mem subsetD)
  show "wf_frame D"
    unfolding wf_frame_def list_all_iff Dcols Drows' using klen by auto
  have tk: "map (\<lambda>r. take (length attrs) (snd r)) (rows D) = map snd kept"
  proof (rule nth_equalityI)
    show "length (map (\<lambda>r. take (length attrs) (snd r)) (rows D)) = length (map snd kept)"
      unfolding Drows' by simp
  next
    fix i assume "i < length (map (\<lambda>r. take (length attrs) (snd r)) (rows D))"
    then have i: "i < length kept" unfolding Drows' by simp
    then show "map (\<lambda>r. take (length attrs) (snd r)) (rows D) ! i = map snd kept ! i"
      unfolding Drows' using klen [OF i] by simp
  qed
  show "distinct (map (\<lambda>r. take (length attrs) (snd r)) (rows D))"
    unfolding tk by (rule dist)
  show "set (map (\<lambda>r. take (length attrs) (snd r)) (rows D)) = set (map (join_key attrs core) (rows core))"
    unfolding tk using keys tuples by simp
  have len: "length (rows D) = length kept" unfolding Drows' by simp
  show "map (\<lambda>r. cell_at (columns D) (snd r) id_label) (rows D)
           = map (\<lambda>i. Num (of_nat i)) [1..<Suc (length (rows D))]"
  proof (rule nth_equalityI)
    show "length (map (\<lambda>r. cell_at (columns D) (snd r) id_label) (rows D))
          = length (map (\<lambda>i. Num (of_nat i)) [1..<Suc (length (rows D))])"
      by (simp del: upt_Suc)
  next
    fix i assume "i < length (map (\<lambda>r. cell_at (columns D) (snd r) id_label) (rows D))"
    then have i: "i < length kept" using len by simp
    have "cell_at (attrs @ [id_label]) (snd (kept ! i) @ [Num (of_nat (Suc i))]) id_label
          = Num (of_nat (Suc i))"
      using klen [OF i] fresh_id by (simp add: cell_at_append_right cell_at_Cons)
    then have "cell_at (columns D) (snd (rows D ! i)) id_label = Num (of_nat (Suc i))"
      unfolding Dcols Drows' using i by simp
    moreover have "map (\<lambda>i. Num (of_nat i)) [1..<Suc (length (rows D))] ! i = Num (of_nat (Suc i))"
      unfolding len using i by (simp add: nth_upt del: upt_Suc)
    ultimately show "map (\<lambda>r. cell_at (columns D) (snd r) id_label) (rows D) ! i
          = map (\<lambda>i. Num (of_nat i)) [1..<Suc (length (rows D))] ! i"
      using i len by (simp del: upt_Suc)
  qed
qed

subsection \<open>Columns appended to a dimension\<close>

lemma set_column_append:
  assumes "l \<notin> set (columns d)" and "length vals = length (rows d)"
  shows "columns (set_column l vals d) = columns d @ [l]"
    and "rows (set_column l vals d) = map (\<lambda>i. (fst (rows d ! i), snd (rows d ! i) @ [vals ! i])) [0..<length (rows d)]"
proof -
  show "columns (set_column l vals d) = columns d @ [l]"
    using assms(1) by (simp add: set_column_def)
  show "rows (set_column l vals d) = map (\<lambda>i. (fst (rows d ! i), snd (rows d ! i) @ [vals ! i])) [0..<length (rows d)]"
    using assms by (auto simp: set_column_def intro!: nth_equalityI)
qed

lemma dim_facts_initial:
  assumes "dimension_frame attrs id_label core = Inr D"
    and "\<forall>a\<in>set attrs. count_list (columns core) a = 1"
    and "wf_frame core" and "id_label \<notin> set attrs"
  shows "dim_facts attrs id_label core D" and "columns D = attrs @ [id_label]"
  using dimension_frame_shape [OF assms] by (simp_all add: dim_facts_def)

lemma dim_facts_append:
  assumes F: "dim_facts attrs id_label core D"
    and l: "l \<notin> set (columns D)" and len: "length vals = length (rows D)"
    and idc: "id_label \<in> set (columns D)"
  shows "dim_facts attrs id_label core (set_column l vals D)"
proof -
  let ?D = "set_column l vals D"
  note sc = set_column_append [OF l len]
  from F have wf: "wf_frame D" and tk: "take (length attrs) (columns D) = attrs"
    and le: "length attrs \<le> length (columns D)"
    and dist: "distinct (map (\<lambda>r. take (length attrs) (snd r)) (rows D))"
    and st: "set (map (\<lambda>r. take (length attrs) (snd r)) (rows D)) = set (map (join_key attrs core) (rows core))"
    and ids: "map (\<lambda>r. cell_at (columns D) (snd r) id_label) (rows D)
           = map (\<lambda>i. Num (of_nat i)) [1..<Suc (length (rows D))]"
    by (simp_all add: dim_facts_def)
  have rl: "\<And>i. i < length (rows D) \<Longrightarrow> length (snd (rows D ! i)) = length (columns D)"
    using wf by (simp add: wf_frame_def list_all_length)
  have lenD: "length (rows ?D) = length (rows D)" by (simp add: sc(2))
  have wf': "wf_frame ?D"
    unfolding wf_frame_def list_all_length sc using rl by simp
  have tk': "take (length attrs) (columns ?D) = attrs" using tk le by (simp add: sc(1))
  have tuples: "map (\<lambda>r. take (length attrs) (snd r)) (rows ?D)
                = map (\<lambda>r. take (length attrs) (snd r)) (rows D)"
  proof (rule nth_equalityI)
    show "length (map (\<lambda>r. take (length attrs) (snd r)) (rows ?D))
          = length (map (\<lambda>r. take (length attrs) (snd r)) (rows D))" by (simp add: lenD)
  next
    fix i assume "i < length (map (\<lambda>r. take (length attrs) (snd r)) (rows ?D))"
    then have i: "i < length (rows D)" by (simp add: lenD)
    then show "map (\<lambda>r. take (length attrs) (snd r)) (rows ?D) ! i
             = map (\<lambda>r. take (length attrs) (snd r)) (rows D) ! i"
      using rl [OF i] le by (simp add: sc(2) lenD)
  qed
  have idcol: "map (\<lambda>r. cell_at (columns ?D) (snd r) id_label) (rows ?D)
               = map (\<lambda>r. cell_at (columns D) (snd r) id_label) (rows D)"
  proof (rule nth_equalityI)
    show "length (map (\<lambda>r. cell_at (columns ?D) (snd r) id_label) (rows ?D))
          = length (map (\<lambda>r. cell_at (columns D) (snd r) id_label) (rows D))" by (simp add: lenD)
  next
    fix i assume "i < length (map (\<lambda>r. cell_at (columns ?D) (snd r) id_label) (rows ?D))"
    then have i: "i < length (rows D)" by (simp add: lenD)
    then show "map (\<lambda>r. cell_at (columns ?D) (snd r) id_label) (rows ?D) ! i
             = map (\<lambda>r. cell_at (columns D) (snd r) id_label) (rows D) ! i"
      using rl [OF i] idc by (simp add: sc lenD cell_at_append_left)
  qed
  show ?thesis
    unfolding dim_facts_def tuples idcol lenD
    using wf' tk' le dist st ids by (simp add: sc(1))
qed

lemma dim_facts_keys:
  assumes F: "dim_facts attrs id_label core D" and da: "distinct attrs"
  shows "map (join_key attrs D) (rows D) = map (\<lambda>r. take (length attrs) (snd r)) (rows D)"
proof (rule map_cong [OF refl])
  fix r assume r: "r \<in> set (rows D)"
  from F have wf: "wf_frame D" and tk: "take (length attrs) (columns D) = attrs"
    and le: "length attrs \<le> length (columns D)" by (simp_all add: dim_facts_def)
  have len: "length (snd r) = length (columns D)"
    using wf r by (auto simp: wf_frame_def list_all_iff)
  define t where "t = take (length attrs) (snd r)"
  define rest where "rest = drop (length attrs) (snd r)"
  define ex where "ex = drop (length attrs) (columns D)"
  have c: "columns D = attrs @ ex" unfolding ex_def using tk by (metis append_take_drop_id)
  have s: "snd r = t @ rest" unfolding t_def rest_def by simp
  have lt: "length t = length attrs" unfolding t_def using len le by simp
  have "map (cell_at (attrs @ ex) (t @ rest)) attrs = map (cell_at attrs t) attrs"
    using lt by (intro map_cong) (auto simp: cell_at_append_left)
  also have "\<dots> = t" using map_cell_at_self [OF da lt] .
  finally show "join_key attrs D r = take (length attrs) (snd r)"
    unfolding join_key_def c s using lt by simp
qed

lemma dim_facts_count:
  assumes F: "dim_facts attrs id_label core D"
  shows "length (rows D) = distinct_tuples attrs core"
proof -
  from F have dist: "distinct (map (\<lambda>r. take (length attrs) (snd r)) (rows D))"
    and st: "set (map (\<lambda>r. take (length attrs) (snd r)) (rows D)) = set (map (join_key attrs core) (rows core))"
    by (simp_all add: dim_facts_def)
  have "length (rows D) = length (map (\<lambda>r. take (length attrs) (snd r)) (rows D))" by simp
  also have "\<dots> = card (set (map (\<lambda>r. take (length attrs) (snd r)) (rows D)))"
    using distinct_card [OF dist] by simp
  finally show ?thesis unfolding st distinct_tuples_def .
qed

lemma dim_facts_table:
  assumes F: "dim_facts attrs id_label core D"
  shows "length (snd (table_of D)) = distinct_tuples attrs core"
    and "table_column (table_of D) id_label
           = map (\<lambda>i. Num (of_nat i)) [1..<Suc (distinct_tuples attrs core)]"
proof -
  show "length (snd (table_of D)) = distinct_tuples attrs core"
    using dim_facts_count [OF F] by (simp add: table_of_def)
  from F have "map (\<lambda>r. cell_at (columns D) (snd r) id_label) (rows D)
           = map (\<lambda>i. Num (of_nat i)) [1..<Suc (length (rows D))]" by (simp add: dim_facts_def)
  then show "table_column (table_of D) id_label
           = map (\<lambda>i. Num (of_nat i)) [1..<Suc (distinct_tuples attrs core)]"
    unfolding dim_facts_count [OF F] by (simp add: table_column_def table_of_def comp_def)
qed

lemma dt_part_length: "dt_part p l d = Inr vs \<Longrightarrow> length vs = length (rows d)"
  by (auto simp: dt_part_def Let_def split: if_splits)

subsection \<open>Inner joins against a dimension\<close>

lemma merge_success:
  assumes "merge left right keys = Inr F"
  shows "\<forall>k\<in>set keys. k \<in> set (columns left) \<and> count_list (columns left) k \<le> 1"
    and "\<exists>ren ex. columns F = map ren (columns left) @ ex
           \<and> (\<forall>c. c \<in> set keys \<or> c \<notin> set (columns right) \<longrightarrow> ren c = c)"
    and "rows F = renumber (concat (map (\<lambda>l.
                               map (\<lambda>r. (fst l, snd l @ other_cells keys right r))
                                 (filter (\<lambda>r. join_key keys right r = join_key keys left l) (rows right)))
                             (rows left)))"
proof -
  from assms obtain cols where mc: "merged_columns (columns left) (columns right) keys = Inr cols"
    and F: "F = \<lparr>columns = cols,
                      rows = renumber (concat (map (\<lambda>l.
                               map (\<lambda>r. (fst l, snd l @ other_cells keys right r))
                                 (filter (\<lambda>r. join_key keys right r = join_key keys left l) (rows right)))
                             (rows left)))\<rparr>"
    by (auto simp: merge_def split: sum.splits)
  from mc have a: "\<not> list_ex (\<lambda>k. \<not> (k \<in> set (columns left) \<and> k \<in> set (columns right))) keys"
    and b: "\<not> list_ex (\<lambda>k. 1 < count_list (columns left) k \<or> 1 < count_list (columns right) k) keys"
    by (auto simp: merged_columns_def split: if_splits)
  show "\<forall>k\<in>set keys. k \<in> set (columns left) \<and> count_list (columns left) k \<le> 1"
    using a b by (auto simp: list_ex_iff not_less)
  define rrest where "rrest = filter (\<lambda>c. c \<notin> set keys) (columns right)"
  define overlap where "overlap = filter (\<lambda>c. c \<in> set rrest) (columns left)"
  define ren where "ren = (\<lambda>c. if c \<in> set overlap then c @ ''_x'' else c)"
  define rcols where "rcols = map (\<lambda>c. if c \<in> set overlap then c @ ''_y'' else c) rrest"
  from mc a b have cols: "cols = map ren (columns left) @ rcols"
    unfolding merged_columns_def Let_def rrest_def [symmetric] overlap_def [symmetric]
      ren_def [symmetric] rcols_def [symmetric]
    by (simp split: if_splits)
  have "\<forall>c. c \<in> set keys \<or> c \<notin> set (columns right) \<longrightarrow> ren c = c"
    by (auto simp: ren_def overlap_def rrest_def)
  with F cols show "\<exists>ren ex. columns F = map ren (columns left) @ ex
           \<and> (\<forall>c. c \<in> set keys \<or> c \<notin> set (columns right) \<longrightarrow> ren c = c)"
    by (intro exI [of _ ren] exI [of _ rcols]) simp
  from F show "rows F = renumber (concat (map (\<lambda>l.
                               map (\<lambda>r. (fst l, snd l @ other_cells keys right r))
                                 (filter (\<lambda>r. join_key keys right r = join_key keys left l) (rows right)))
                             (rows left)))"
    by simp
qed

lemma concat_singletons_all2:
  "(\<And>l. l \<in> set ls \<Longrightarrow> \<exists>x. h l = [x]) \<Longrightarrow> list_all2 (\<lambda>l x. h l = [x]) ls (concat (map h ls))"
proof (induction ls)
  case Nil
  then show ?case by simp
next
  case (Cons l ls)
  from Cons.prems [of l] obtain x where x: "h l = [x]" by auto
  have "list_all2 (\<lambda>l x. h l = [x]) ls (concat (map h ls))"
    by (rule Cons.IH) (simp add: Cons.prems)
  with x show ?case by simp
qed

lemma length_one_singleton: "length xs = 1 \<Longrightarrow> \<exists>x. xs = [x]"
  by (cases xs) auto

lemma merge_rows:
  assumes F: "merge left right keys = Inr F"
    and one: "\<And>l. l \<in> set (rows left) \<Longrightarrow>
        length (filter (\<lambda>r. join_key keys right r = join_key keys left l) (rows right)) = 1"
  shows "list_all2 (\<lambda>l cs. \<exists>e. cs = snd l @ e) (rows left) (map snd (rows F))"
proof -
  let ?h = "\<lambda>l. map (\<lambda>r. (fst l, snd l @ other_cells keys right r))
                 (filter (\<lambda>r. join_key keys right r = join_key keys left l) (rows right))"
  have rows: "map snd (rows F) = map snd (concat (map ?h (rows left)))"
    unfolding merge_success(3) [OF F] by simp
  have "\<And>l. l \<in> set (rows left) \<Longrightarrow> \<exists>x. ?h l = [x]"
    using one by (intro length_one_singleton) simp
  from concat_singletons_all2 [of "rows left" ?h, OF this]
  have "list_all2 (\<lambda>l x. ?h l = [x]) (rows left) (concat (map ?h (rows left)))" by simp
  then have "list_all2 (\<lambda>l x. \<exists>e. snd x = snd l @ e) (rows left) (concat (map ?h (rows left)))"
  proof (rule list_all2_mono)
    fix l x assume "?h l = [x]"
    then have "x \<in> set (?h l)" by simp
    then show "\<exists>e. snd x = snd l @ e" by auto
  qed
  then show ?thesis unfolding rows by (simp add: list_all2_map2)
qed

lemma count_list_map_ge: "f k = k \<Longrightarrow> count_list xs k \<le> count_list (map f xs) k"
  by (induction xs) auto

lemma count_list_append_le: "count_list xs k \<le> count_list (xs @ ys) k"
  by (induction xs) auto

lemma cell_at_renamed:
  "length cs = length cols \<Longrightarrow> f k = k \<Longrightarrow> count_list (map f cols) k \<le> 1 \<Longrightarrow> k \<in> set cols \<Longrightarrow>
   cell_at (map f cols @ ex) (cs @ rest) k = cell_at cols cs k"
proof (induction cols arbitrary: cs)
  case Nil
  then show ?case by simp
next
  case (Cons c cols)
  then obtain v vs where cs: "cs = v # vs" "length vs = length cols" by (cases cs) auto
  show ?case
  proof (cases "c = k")
    case True
    with Cons.prems cs show ?thesis by (simp add: cell_at_Cons)
  next
    case False
    with Cons.prems have k: "k \<in> set cols" by simp
    then have "1 \<le> count_list cols k" using count_list_0_iff [of cols k] by (cases "count_list cols k") auto
    then have "1 \<le> count_list (map f cols) k"
      using count_list_map_ge [of f k cols] Cons.prems(2) by simp
    with Cons.prems(3) have fc: "f c \<noteq> k" and le: "count_list (map f cols) k \<le> 1"
      by (auto split: if_splits)
    show ?thesis
      using Cons.IH [OF cs(2) Cons.prems(2) le k] fc False cs by (simp add: cell_at_Cons)
  qed
qed

lemma fact_extends_refl: "fact_extends core K core"
proof -
  have "list_all2 (\<lambda>l cs. \<exists>e. cs = snd l @ e) (rows core) (map snd (rows core))"
    by (simp add: list_all2_map2 list_all2_same)
  moreover have "columns core = map (\<lambda>c. c) (columns core) @ []" by simp
  ultimately show ?thesis unfolding fact_extends_def by blast
qed

lemma fact_extends_length: "fact_extends core K F \<Longrightarrow> length (rows F) = length (rows core)"
  by (auto simp: fact_extends_def dest: list_all2_lengthD)

lemma merge_keys_unique_in_core:
  assumes I: "fact_extends core K left" and F: "merge left D keys = Inr F"
    and K: "set keys \<subseteq> K" and present: "\<forall>k\<in>set keys. k \<in> set (columns core)"
  shows "\<forall>k\<in>set keys. count_list (columns core) k = 1"
proof
  fix k assume k: "k \<in> set keys"
  from I obtain ren ex where c: "columns left = map ren (columns core) @ ex"
    and r: "\<forall>k\<in>K. ren k = k" by (auto simp: fact_extends_def)
  from k K r have rk: "ren k = k" by auto
  have "count_list (columns core) k \<le> count_list (map ren (columns core)) k"
    using count_list_map_ge [of ren k "columns core"] rk by simp
  also have "\<dots> \<le> count_list (columns left) k" unfolding c by (rule count_list_append_le)
  also have "\<dots> \<le> 1" using merge_success(1) [OF F] k by auto
  finally have "count_list (columns core) k \<le> 1" .
  moreover have "count_list (columns core) k \<noteq> 0"
    using present k by (simp add: count_list_0_iff)
  ultimately show "count_list (columns core) k = 1" by simp
qed

lemma fact_extends_merge:
  assumes I: "fact_extends core K left" and wf: "wf_frame core"
    and F: "merge left D keys = Inr F"
    and K: "set keys \<subseteq> K" and present: "\<forall>k\<in>set keys. k \<in> set (columns core)"
    and away: "\<forall>k\<in>K. k \<in> set keys \<or> k \<notin> set (columns D)"
    and dist: "distinct (map (join_key keys D) (rows D))"
    and cover: "set (map (join_key keys core) (rows core)) \<subseteq> set (map (join_key keys D) (rows D))"
  shows "fact_extends core K F"
proof -
  from I obtain ren ex where c: "columns left = map ren (columns core) @ ex"
    and r: "\<forall>k\<in>K. ren k = k"
    and rows: "list_all2 (\<lambda>l cs. \<exists>e. cs = snd l @ e) (rows core) (map snd (rows left))"
    by (auto simp: fact_extends_def)
  from merge_success(2) [OF F] obtain ren' ex' where c': "columns F = map ren' (columns left) @ ex'"
    and r': "\<forall>c. c \<in> set keys \<or> c \<notin> set (columns D) \<longrightarrow> ren' c = c" by blast
  have cols: "columns F = map (\<lambda>c. ren' (ren c)) (columns core) @ (map ren' ex @ ex')"
    unfolding c' c by simp
  have rr: "\<forall>k\<in>K. ren' (ren k) = k" using r r' away by auto
  have key: "join_key keys left lr = join_key keys core l"
    if l: "l \<in> set (rows core)" and e: "snd lr = snd l @ e" for l lr e
  proof -
    have len: "length (snd l) = length (columns core)"
      using wf l by (auto simp: wf_frame_def list_all_iff)
    have "cell_at (map ren (columns core) @ ex) (snd l @ e) k = cell_at (columns core) (snd l) k"
      if k: "k \<in> set keys" for k
    proof (rule cell_at_renamed [OF len])
      show "ren k = k" using k K r by auto
      show "k \<in> set (columns core)" using present k by auto
      have "count_list (map ren (columns core)) k \<le> count_list (columns left) k"
        unfolding c by (rule count_list_append_le)
      also have "\<dots> \<le> 1" using merge_success(1) [OF F] k by auto
      finally show "count_list (map ren (columns core)) k \<le> 1" .
    qed
    then show ?thesis unfolding join_key_def c e by (intro map_cong) auto
  qed
  have one: "length (filter (\<lambda>r. join_key keys D r = join_key keys left lr) (rows D)) = 1"
    if lr: "lr \<in> set (rows left)" for lr
  proof -
    from lr obtain j where j: "j < length (rows left)" "rows left ! j = lr"
      by (auto simp: in_set_conv_nth)
    have jl: "j < length (map snd (rows left))" using j(1) by simp
    have "\<exists>e. map snd (rows left) ! j = snd (rows core ! j) @ e"
      using list_all2_nthD2 [OF rows jl] .
    then obtain e where e: "snd lr = snd (rows core ! j) @ e" using j by auto
    have "j < length (rows core)" using list_all2_lengthD [OF rows] j(1) by simp
    then have l0: "rows core ! j \<in> set (rows core)" by simp
    define l where "l = rows core ! j"
    have l: "l \<in> set (rows core)" using l0 by (simp add: l_def)
    have e: "snd lr = snd l @ e" using e by (simp add: l_def)
    have k: "join_key keys left lr = join_key keys core l" by (rule key [OF l e])
    have "join_key keys core l \<in> join_key keys D ` set (rows D)"
      using cover l by auto
    from count_distinct_map [OF dist this] show ?thesis unfolding k .
  qed
  have "list_all2 (\<lambda>l cs. \<exists>e. cs = snd l @ e) (rows left) (map snd (rows F))"
    by (rule merge_rows [OF F one])
  then have "list_all2 (\<lambda>cs cs'. \<exists>e. cs' = cs @ e) (map snd (rows left)) (map snd (rows F))"
    by (simp add: list_all2_map1)
  with rows have "list_all2 (\<lambda>l cs'. \<exists>e. cs' = snd l @ e) (rows core) (map snd (rows F))"
  proof (rule list_all2_trans [rotated])
    fix l cs cs' assume "\<exists>e. cs = snd l @ e" "\<exists>e. cs' = cs @ e"
    then show "\<exists>e. cs' = snd l @ e" by auto
  qed
  with cols rr show ?thesis unfolding fact_extends_def by blast
qed

lemma select_columns_length:
  "select_columns ls df = Inr sel \<Longrightarrow> length (rows sel) = length (rows df)"
  by (auto simp: select_columns_def split: if_splits)

lemma select_columns_present:
  "select_columns ls df = Inr sel \<Longrightarrow> \<forall>k\<in>set ls. k \<in> set (columns df)"
  by (auto simp: select_columns_def list_ex_iff split: if_splits)

section \<open>Stage 3: the steps on the state\<close>

lemma preserves_heap: "preserves w w' \<Longrightarrow> r < fresh w \<Longrightarrow> heap w' r = heap w r"
  by (simp add: preserves_def list_all_iff)

lemma preserves_fresh: "preserves w w' \<Longrightarrow> fresh w \<le> fresh w'"
  by (simp add: preserves_def)

lemma preserves_refl: "preserves w w"
  by (simp add: preserves_def list_all_iff)

lemma preserves_trans: "preserves w w' \<Longrightarrow> preserves w' w'' \<Longrightarrow> preserves w w''"
  by (auto simp: preserves_def list_all_iff)

lemma preservesI:
  "fresh w \<le> fresh w' \<Longrightarrow> (\<And>r. r < fresh w \<Longrightarrow> heap w' r = heap w r) \<Longrightarrow> preserves w w'"
  by (simp add: preserves_def list_all_iff)

lemma preserves_logging: "preserves w (logging e w)"
  by (simp add: preserves_def logging_def list_all_iff)

lemma to_sql_result:
  "to_sql name df w = Inr w' \<Longrightarrow>
   heap w' = heap w \<and> fresh w' = fresh w \<and> wlog w' = wlog w
   \<and> db w' = (db w)(name \<mapsto> table_of df) \<and> distinct (columns df)"
  by (auto simp: to_sql_def split: if_splits)

lemma extract_dimension_result:
  assumes "extract_dimension core attrs id_label w = (w', Inr d)"
  shows "d = fresh w" and "fresh w' = Suc (fresh w)"
    and "\<And>r. r \<noteq> fresh w \<Longrightarrow> heap w' r = heap w r"
    and "dimension_frame attrs id_label (heap w core) = Inr (heap w' d)"
    and "db w' = db w" and "wlog w' = wlog w"
  using assms
  by (auto simp: extract_dimension_def dimension_frame_def new_frame_def setitem_def Let_def
      split: sum.splits)

lemma extract_dimension_preserves:
  "extract_dimension core attrs id_label w = (w', x) \<Longrightarrow> preserves w w'"
  by (auto simp: extract_dimension_def new_frame_def setitem_def Let_def
      intro!: preservesI split: sum.splits)

lemma add_date_part_result:
  assumes "add_date_part d label p w = Inr w'"
  shows "\<exists>vs. dt_part p FECHA (heap w d) = Inr vs
           \<and> heap w' = (heap w)(d := set_column label vs (heap w d))"
    and "fresh w' = fresh w" and "db w' = db w" and "wlog w' = wlog w"
  using assms by (auto simp: add_date_part_def setitem_def split: sum.splits)

lemma build_dim_result:
  assumes "build_dim core attrs id_label name w = (w', Inr d)"
  shows "d = fresh w" and "fresh w' = Suc (fresh w)"
    and "\<And>r. r \<noteq> fresh w \<Longrightarrow> heap w' r = heap w r"
    and "dimension_frame attrs id_label (heap w core) = Inr (heap w' d)"
    and "db w' = (db w)(name \<mapsto> table_of (heap w' d))" and "wlog w' = wlog w"
proof -
  from assms obtain w1 where e: "extract_dimension core attrs id_label w = (w1, Inr d)"
    and s: "to_sql name (heap w1 d) w1 = Inr w'"
    by (auto simp: build_dim_def split: prod.splits sum.splits)
  note er = extract_dimension_result [OF e] and sr = to_sql_result [OF s]
  show "d = fresh w" by (rule er(1))
  show "fresh w' = Suc (fresh w)" using er(2) sr by simp
  show "\<And>r. r \<noteq> fresh w \<Longrightarrow> heap w' r = heap w r" using er(3) sr by simp
  show "dimension_frame attrs id_label (heap w core) = Inr (heap w' d)" using er(4) sr by simp
  show "db w' = (db w)(name \<mapsto> table_of (heap w' d))" using er(5) sr by simp
  show "wlog w' = wlog w" using er(6) sr by simp
qed

lemma build_dim_preserves:
  assumes "build_dim core attrs id_label name w = (w', x)"
  shows "preserves w w'"
proof -
  obtain w1 y where e: "extract_dimension core attrs id_label w = (w1, y)"
    by (cases "extract_dimension core attrs id_label w")
  have p1: "preserves w w1" by (rule extract_dimension_preserves [OF e])
  have "heap w' = heap w1 \<and> fresh w' = fresh w1"
    using assms e by (auto simp: build_dim_def to_sql_def split: sum.splits if_splits)
  then have "preserves w1 w'" by (auto intro: preservesI)
  with p1 show ?thesis by (rule preserves_trans)
qed

lemma build_dim_time_result:
  assumes "build_dim_time core w = (w', Inr d)"
  shows "d = fresh w" and "fresh w' = Suc (fresh w)"
    and "\<And>r. r \<noteq> fresh w \<Longrightarrow> heap w' r = heap w r"
    and "\<exists>D0 ys ms ds.
           dimension_frame time_attrs ''TIME_ID'' (heap w core) = Inr D0
           \<and> length ys = length (rows D0)
           \<and> length ms = length (rows (set_column ''YEAR'' ys D0))
           \<and> length ds = length (rows (set_column ''MONTH'' ms (set_column ''YEAR'' ys D0)))
           \<and> heap w' d = set_column ''DAY'' ds (set_column ''MONTH'' ms (set_column ''YEAR'' ys D0))"
    and "db w' = (db w)(''DIM_TIME'' \<mapsto> table_of (heap w' d))" and "wlog w' = wlog w"
proof -
  from assms obtain w1 w2 w3 w4 where e: "extract_dimension core time_attrs ''TIME_ID'' w = (w1, Inr d)"
    and y: "add_date_part d ''YEAR'' Year w1 = Inr w2"
    and m: "add_date_part d ''MONTH'' Month w2 = Inr w3"
    and dd: "add_date_part d ''DAY'' Day w3 = Inr w4"
    and s: "to_sql ''DIM_TIME'' (heap w4 d) w4 = Inr w'"
    by (auto simp: build_dim_time_def split: prod.splits sum.splits)
  note er = extract_dimension_result [OF e] and sr = to_sql_result [OF s]
  note yr = add_date_part_result [OF y] and mr = add_date_part_result [OF m]
    and dr = add_date_part_result [OF dd]
  from yr(1) obtain ys where ys: "dt_part Year FECHA (heap w1 d) = Inr ys"
    "heap w2 = (heap w1)(d := set_column ''YEAR'' ys (heap w1 d))" by blast
  from mr(1) obtain ms where ms: "dt_part Month FECHA (heap w2 d) = Inr ms"
    "heap w3 = (heap w2)(d := set_column ''MONTH'' ms (heap w2 d))" by blast
  from dr(1) obtain ds where ds: "dt_part Day FECHA (heap w3 d) = Inr ds"
    "heap w4 = (heap w3)(d := set_column ''DAY'' ds (heap w3 d))" by blast
  show "d = fresh w" by (rule er(1))
  show "fresh w' = Suc (fresh w)" using er(2) yr(2) mr(2) dr(2) sr by simp
  show "\<And>r. r \<noteq> fresh w \<Longrightarrow> heap w' r = heap w r"
    using er(1) er(3) ys(2) ms(2) ds(2) sr by simp
  have h: "heap w' d = set_column ''DAY'' ds (set_column ''MONTH'' ms (set_column ''YEAR'' ys (heap w1 d)))"
    using ys(2) ms(2) ds(2) sr by simp
  have "length ys = length (rows (heap w1 d))" using dt_part_length [OF ys(1)] .
  moreover have "length ms = length (rows (set_column ''YEAR'' ys (heap w1 d)))"
    using dt_part_length [OF ms(1)] ys(2) by simp
  moreover have "length ds = length (rows (set_column ''MONTH'' ms (set_column ''YEAR'' ys (heap w1 d))))"
    using dt_part_length [OF ds(1)] ys(2) ms(2) by simp
  ultimately show "\<exists>D0 ys ms ds.
           dimension_frame time_attrs ''TIME_ID'' (heap w core) = Inr D0
           \<and> length ys = length (rows D0)
           \<and> length ms = length (rows (set_column ''YEAR'' ys D0))
           \<and> length ds = length (rows (set_column ''MONTH'' ms (set_column ''YEAR'' ys D0)))
           \<and> heap w' d = set_column ''DAY'' ds (set_column ''MONTH'' ms (set_column ''YEAR'' ys D0))"
    using er(4) h by blast
  show "db w' = (db w)(''DIM_TIME'' \<mapsto> table_of (heap w' d))"
    using er(5) yr(3) mr(3) dr(3) sr by simp
  show "wlog w' = wlog w" using er(6) yr(4) mr(4) dr(4) sr by simp
qed

lemma add_date_part_preserves:
  assumes "add_date_part d label p w = Inr w'" and "fresh w0 \<le> d" and "preserves w0 w"
  shows "preserves w0 w'"
proof (rule preservesI)
  show "fresh w0 \<le> fresh w'"
    using add_date_part_result(2) [OF assms(1)] preserves_fresh [OF assms(3)] by simp
next
  fix r assume r: "r < fresh w0"
  from add_date_part_result(1) [OF assms(1)] obtain vs
    where h: "heap w' = (heap w)(d := set_column label vs (heap w d))" by blast
  have "r \<noteq> d" using r assms(2) by simp
  then show "heap w' r = heap w0 r" using h preserves_heap [OF assms(3) r] by simp
qed

lemma build_dim_time_preserves:
  assumes "build_dim_time core w = (w', x)"
  shows "preserves w w'"
proof -
  obtain w1 y where e: "extract_dimension core time_attrs ''TIME_ID'' w = (w1, y)"
    by (cases "extract_dimension core time_attrs ''TIME_ID'' w")
  have p1: "preserves w w1" by (rule extract_dimension_preserves [OF e])
  show ?thesis
  proof (cases y)
    case (Inl err)
    with assms e have "w' = w1" by (simp add: build_dim_time_def)
    with p1 show ?thesis by simp
  next
    case (Inr d)
    have d: "fresh w \<le> d" using extract_dimension_result(1) [OF e [unfolded Inr]] by simp
    note step = add_date_part_preserves [OF _ d]
    show ?thesis
    proof (cases "add_date_part d ''YEAR'' Year w1")
      case Inl
      with assms e Inr have "w' = w1" by (simp add: build_dim_time_def)
      with p1 show ?thesis by simp
    next
      case (Inr w2)
      note y = this
      have p2: "preserves w w2" by (rule step [OF y p1])
      show ?thesis
      proof (cases "add_date_part d ''MONTH'' Month w2")
        case Inl
        with assms e \<open>y = Inr d\<close> y have "w' = w2" by (simp add: build_dim_time_def)
        with p2 show ?thesis by simp
      next
        case (Inr w3)
        note m = this
        have p3: "preserves w w3" by (rule step [OF m p2])
        show ?thesis
        proof (cases "add_date_part d ''DAY'' Day w3")
          case Inl
          with assms e \<open>y = Inr d\<close> y m have "w' = w3" by (simp add: build_dim_time_def)
          with p3 show ?thesis by simp
        next
          case (Inr w4)
          note dd = this
          have p4: "preserves w w4" by (rule step [OF dd p3])
          have "heap w' = heap w4 \<and> fresh w' = fresh w4"
            using assms e \<open>y = Inr d\<close> y m dd
            by (auto simp: build_dim_time_def to_sql_def split: sum.splits if_splits)
          then have "preserves w4 w'" by (auto intro: preservesI)
          with p4 show ?thesis by (rule preserves_trans)
        qed
      qed
    qed
  qed
qed

lemma build_fact_result:
  assumes "build_fact core dt de dp dm w = (w', None)"
  shows "\<exists>f1 f2 f3 f4 fact.
           merge (heap w core) (heap w dt) time_attrs = Inr f1
           \<and> merge f1 (heap w de) empresa_attrs = Inr f2
           \<and> merge f2 (heap w dp) pais_attrs = Inr f3
           \<and> merge f3 (heap w dm) mercancia_attrs = Inr f4
           \<and> select_columns fact_columns f4 = Inr fact
           \<and> distinct (columns fact)
           \<and> db w' = (db w)(''FACT_EXPORTACIONES'' \<mapsto> table_of fact)"
    and "heap w' = heap w" and "fresh w' = fresh w" and "wlog w' = wlog w"
  using assms
  by (auto simp: build_fact_def to_sql_def split: sum.splits if_splits)

lemma build_fact_preserves:
  "build_fact core dt de dp dm w = (w', x) \<Longrightarrow> preserves w w'"
  by (auto simp: build_fact_def to_sql_def intro!: preservesI split: sum.splits if_splits)

section \<open>Stage 3: what a completed build leaves in the store\<close>

lemma build_semantic_layer_preserves:
  "preserves w (fst (build_semantic_layer core w))"
proof (cases "is_empty (heap w core)")
  case True
  then show ?thesis by (simp add: build_semantic_layer_def preserves_logging)
next
  case False
  define w0 where "w0 = logging InfoConnected w"
  have p0: "preserves w w0" unfolding w0_def by (rule preserves_logging)
  obtain w1 x1 where t: "build_dim_time core w0 = (w1, x1)" by (cases "build_dim_time core w0")
  have p1: "preserves w w1" using p0 build_dim_time_preserves [OF t] by (rule preserves_trans)
  show ?thesis
  proof (cases x1)
    case Inl
    with False t p1 show ?thesis by (simp add: build_semantic_layer_def w0_def [symmetric])
  next
    case (Inr dt)
    note x1 = this
    obtain w2 x2 where e: "build_dim core empresa_attrs ''EMPRESA_ID'' ''DIM_EMPRESA'' w1 = (w2, x2)"
      by (cases "build_dim core empresa_attrs ''EMPRESA_ID'' ''DIM_EMPRESA'' w1")
    have p2: "preserves w w2" using p1 build_dim_preserves [OF e] by (rule preserves_trans)
    show ?thesis
    proof (cases x2)
      case Inl
      with False t x1 e p2 show ?thesis by (simp add: build_semantic_layer_def w0_def [symmetric])
    next
      case (Inr de)
      note x2 = this
      obtain w3 x3 where p: "build_dim core pais_attrs ''PAIS_ID'' ''DIM_PAIS'' w2 = (w3, x3)"
        by (cases "build_dim core pais_attrs ''PAIS_ID'' ''DIM_PAIS'' w2")
      have p3: "preserves w w3" using p2 build_dim_preserves [OF p] by (rule preserves_trans)
      show ?thesis
      proof (cases x3)
        case Inl
        with False t x1 e x2 p p3 show ?thesis
          by (simp add: build_semantic_layer_def w0_def [symmetric])
      next
        case (Inr dp)
        note x3 = this
        obtain w4 x4 where m: "build_dim core mercancia_attrs ''MERCANCIA_ID'' ''DIM_MERCANCIA'' w3 = (w4, x4)"
          by (cases "build_dim core mercancia_attrs ''MERCANCIA_ID'' ''DIM_MERCANCIA'' w3")
        have p4: "preserves w w4" using p3 build_dim_preserves [OF m] by (rule preserves_trans)
        show ?thesis
        proof (cases x4)
          case Inl
          with False t x1 e x2 p x3 m p4 show ?thesis
            by (simp add: build_semantic_layer_def w0_def [symmetric])
        next
          case (Inr dm)
          note x4 = this
          obtain w5 x5 where f: "build_fact core dt de dp dm w4 = (w5, x5)"
            by (cases "build_fact core dt de dp dm w4")
          have p5: "preserves w w5" using p4 build_fact_preserves [OF f] by (rule preserves_trans)
          have p6: "preserves w (logging InfoSemanticBuilt w5)"
            using p5 preserves_logging by (rule preserves_trans)
          show ?thesis
            using False t x1 e x2 p x3 m x4 f p5 p6
            by (cases x5) (simp_all add: build_semantic_layer_def w0_def [symmetric])
        qed
      qed
    qed
  qed
qed

lemma dimension_frame_present:
  "dimension_frame attrs id_label C = Inr D \<Longrightarrow> \<forall>k\<in>set attrs. k \<in> set (columns C)"
  by (auto simp: dimension_frame_def split: sum.splits dest: select_columns_present)

lemma length_rows_set_column_append:
  "l \<notin> set (columns d) \<Longrightarrow> length vals = length (rows d) \<Longrightarrow>
   length (rows (set_column l vals d)) = length (rows d)"
  by (simp add: set_column_append(2))

lemma time_dim_facts:
  assumes D0: "dimension_frame time_attrs ''TIME_ID'' C = Inr D0"
    and uniq: "\<forall>a\<in>set time_attrs. count_list (columns C) a = 1"
    and wf: "wf_frame C"
    and ys: "length ys = length (rows D0)"
    and ms: "length ms = length (rows (set_column ''YEAR'' ys D0))"
    and ds: "length ds = length (rows (set_column ''MONTH'' ms (set_column ''YEAR'' ys D0)))"
  shows "dim_facts time_attrs ''TIME_ID'' C
           (set_column ''DAY'' ds (set_column ''MONTH'' ms (set_column ''YEAR'' ys D0)))"
    and "columns (set_column ''DAY'' ds (set_column ''MONTH'' ms (set_column ''YEAR'' ys D0)))
           = [FECHA, ''TIME_ID'', ''YEAR'', ''MONTH'', ''DAY'']"
proof -
  have id: "''TIME_ID'' \<notin> set time_attrs" by (simp add: time_attrs_def)
  note i = dim_facts_initial [OF D0 uniq wf id]
  have c0: "columns D0 = [FECHA, ''TIME_ID'']" using i(2) by (simp add: time_attrs_def)
  let ?D1 = "set_column ''YEAR'' ys D0"
  have l1: "''YEAR'' \<notin> set (columns D0)" by (simp add: c0)
  have f1: "dim_facts time_attrs ''TIME_ID'' C ?D1"
    by (rule dim_facts_append [OF i(1) l1 ys]) (simp add: c0)
  have c1: "columns ?D1 = [FECHA, ''TIME_ID'', ''YEAR'']"
    using set_column_append(1) [OF l1 ys] by (simp add: c0)
  let ?D2 = "set_column ''MONTH'' ms ?D1"
  have l2: "''MONTH'' \<notin> set (columns ?D1)" by (simp add: c1)
  have f2: "dim_facts time_attrs ''TIME_ID'' C ?D2"
    by (rule dim_facts_append [OF f1 l2 ms]) (simp add: c1)
  have c2: "columns ?D2 = [FECHA, ''TIME_ID'', ''YEAR'', ''MONTH'']"
    using set_column_append(1) [OF l2 ms] by (simp add: c1)
  let ?D3 = "set_column ''DAY'' ds ?D2"
  have l3: "''DAY'' \<notin> set (columns ?D2)" by (simp add: c2)
  show "dim_facts time_attrs ''TIME_ID'' C ?D3"
    by (rule dim_facts_append [OF f2 l3 ds]) (simp add: c2)
  show "columns ?D3 = [FECHA, ''TIME_ID'', ''YEAR'', ''MONTH'', ''DAY'']"
    using set_column_append(1) [OF l3 ds] by (simp add: c2)
qed

lemma merge_step:
  assumes I: "fact_extends C key_labels left" and wf: "wf_frame C"
    and F: "merge left D keys = Inr F"
    and K: "set keys \<subseteq> key_labels"
    and present: "\<forall>k\<in>set keys. k \<in> set (columns C)"
    and facts: "(\<forall>k\<in>set keys. count_list (columns C) k = 1) \<Longrightarrow> dim_facts keys id_label C D"
    and away: "\<forall>k\<in>key_labels. k \<in> set keys \<or> k \<notin> set (columns D)"
    and dk: "distinct keys"
  shows "fact_extends C key_labels F" and "dim_facts keys id_label C D"
proof -
  have uniq: "\<forall>k\<in>set keys. count_list (columns C) k = 1"
    by (rule merge_keys_unique_in_core [OF I F K present])
  show df: "dim_facts keys id_label C D" by (rule facts [OF uniq])
  note keys = dim_facts_keys [OF df dk]
  from df have dist: "distinct (map (join_key keys D) (rows D))"
    and cover: "set (map (join_key keys C) (rows C)) \<subseteq> set (map (join_key keys D) (rows D))"
    unfolding keys by (simp_all add: dim_facts_def)
  show "fact_extends C key_labels F"
    by (rule fact_extends_merge [OF I wf F K present away dist cover])
qed

section \<open>Stage 3: the cells of the fact table\<close>

subsection \<open>Labels through a join\<close>

lemma unsuffixed_neq:
  assumes "unsuffixed x"
  shows "c @ ''_x'' \<noteq> x" and "c @ ''_y'' \<noteq> x" and "x \<noteq> c @ ''_x''" and "x \<noteq> c @ ''_y''"
  using assms by (auto simp: unsuffixed_def)

lemma count_list_map_stable:
  "(\<And>c. (f c = x) = (c = x)) \<Longrightarrow> count_list (map f cols) x = count_list cols x"
  by (induction cols) auto

lemma cell_at_map_stable:
  assumes st: "\<And>c. (f c = x) = (c = x)"
  shows "cell_at (map f cols) cs x = cell_at cols cs x"
proof (induction cols arbitrary: cs)
  case Nil
  show ?case by (simp add: cell_at_def)
next
  case (Cons c cols)
  have IH: "cell_at (map f cols) vs x = cell_at cols vs x" for vs by (rule Cons.IH)
  show ?case
  proof (cases cs)
    case Nil
    then show ?thesis by (simp add: cell_at_def)
  next
    case (Cons v vs)
    show ?thesis
      unfolding Cons using st [of c] IH [of vs] by (auto simp: cell_at_Cons)
  qed
qed

lemma count_list_filter: "P x \<Longrightarrow> count_list (filter P xs) x = count_list xs x"
  by (induction xs) auto

lemma zip_filter_fst:
  assumes "length cols = length cs"
  shows "zip (filter P cols) (map snd (filter (\<lambda>p. P (fst p)) (zip cols cs)))
           = filter (\<lambda>p. P (fst p)) (zip cols cs)"
  using assms by (induction cols cs rule: list_induct2) auto

lemma map_of_filter_fst: "P x \<Longrightarrow> map_of (filter (\<lambda>p. P (fst p)) ps) x = map_of ps x"
  by (induction ps) auto

lemma cell_at_other_cells:
  assumes "length (snd d) = length (columns D)" and "x \<notin> set keys"
  shows "cell_at (filter (\<lambda>c. c \<notin> set keys) (columns D)) (other_cells keys D d) x
           = cell_at (columns D) (snd d) x"
  using assms(2)
  by (simp add: cell_at_def other_cells_def
      zip_filter_fst [OF assms(1) [symmetric], where P = "\<lambda>c. c \<notin> set keys"]
      map_of_filter_fst [where P = "\<lambda>c. c \<notin> set keys"])

lemma length_filter_zip_fst:
  assumes "length cols = length cs"
  shows "length (filter (\<lambda>p. P (fst p)) (zip cols cs)) = length (filter P cols)"
  using assms by (induction cols cs rule: list_induct2) auto

lemma length_other_cells:
  assumes "length (snd d) = length (columns D)"
  shows "length (other_cells keys D d) = length (filter (\<lambda>c. c \<notin> set keys) (columns D))"
  by (simp add: other_cells_def
      length_filter_zip_fst [OF assms [symmetric], where P = "\<lambda>c. c \<notin> set keys"])

lemma merge_columns:
  assumes "merge left right keys = Inr F"
  shows "columns F =
           map (\<lambda>c. if c \<in> set (columns left) \<and> c \<notin> set keys \<and> c \<in> set (columns right)
                    then c @ ''_x'' else c) (columns left)
           @ map (\<lambda>c. if c \<in> set (columns left) \<and> c \<notin> set keys \<and> c \<in> set (columns right)
                      then c @ ''_y'' else c)
               (filter (\<lambda>c. c \<notin> set keys) (columns right))"
proof -
  from assms obtain cols where
    mc: "merged_columns (columns left) (columns right) keys = Inr cols"
    and F: "columns F = cols"
    by (auto simp: merge_def split: sum.splits)
  define rrest where "rrest = filter (\<lambda>c. c \<notin> set keys) (columns right)"
  from mc have "cols =
      map (\<lambda>c. if c \<in> set (filter (\<lambda>c. c \<in> set rrest) (columns left)) then c @ ''_x'' else c)
        (columns left)
      @ map (\<lambda>c. if c \<in> set (filter (\<lambda>c. c \<in> set rrest) (columns left)) then c @ ''_y'' else c)
          rrest"
    unfolding merged_columns_def Let_def rrest_def [symmetric]
    by (simp split: if_splits)
  then show ?thesis unfolding F rrest_def by (simp add: conj_ac)
qed

lemma merge_label_kept:
  assumes F: "merge left right keys = Inr F" and u: "unsuffixed x"
    and nr: "x \<in> set keys \<or> x \<notin> set (columns right)"
  shows "count_list (columns F) x = count_list (columns left) x"
    and "length cs = length (columns left) \<Longrightarrow>
         cell_at (columns F) (cs @ e) x = cell_at (columns left) cs x"
proof -
  define ren where "ren = (\<lambda>c. if c \<in> set (columns left) \<and> c \<notin> set keys \<and> c \<in> set (columns right)
                    then c @ ''_x'' else c)"
  define rcols where "rcols = map (\<lambda>c. if c \<in> set (columns left) \<and> c \<notin> set keys \<and> c \<in> set (columns right)
                      then c @ ''_y'' else c)
               (filter (\<lambda>c. c \<notin> set keys) (columns right))"
  have c: "columns F = map ren (columns left) @ rcols"
    unfolding ren_def rcols_def by (rule merge_columns [OF F])
  note n = unsuffixed_neq [OF u]
  have st: "(ren c = x) = (c = x)" for c
    using nr by (auto simp: ren_def n)
  have nx: "x \<notin> set rcols"
    using nr by (auto simp: rcols_def n)
  have cl: "count_list (map ren (columns left)) x = count_list (columns left) x"
    by (rule count_list_map_stable) (rule st)
  show "count_list (columns F) x = count_list (columns left) x"
    unfolding c using cl nx by simp
  assume len: "length cs = length (columns left)"
  then have len': "length cs = length (map ren (columns left))" by simp
  show "cell_at (columns F) (cs @ e) x = cell_at (columns left) cs x"
  proof (cases "x \<in> set (columns left)")
    case True
    then have "ren x \<in> set (map ren (columns left))" by simp
    then have m: "x \<in> set (map ren (columns left))" using st [of x] by simp
    have "cell_at (columns F) (cs @ e) x = cell_at (map ren (columns left)) cs x"
      unfolding c by (rule cell_at_append_left [OF len' m])
    also have "\<dots> = cell_at (columns left) cs x" by (rule cell_at_map_stable) (rule st)
    finally show ?thesis .
  next
    case False
    have m: "x \<notin> set (map ren (columns left))"
    proof
      assume "x \<in> set (map ren (columns left))"
      then obtain c' where c': "c' \<in> set (columns left)" "ren c' = x" by auto
      from c'(2) have "c' = x" by (simp only: st)
      with c'(1) False show False by simp
    qed
    have "cell_at (columns F) (cs @ e) x = cell_at rcols e x"
      unfolding c by (rule cell_at_append_right [OF len' m])
    also have "\<dots> = Null" by (rule cell_at_absent [OF nx])
    also have "\<dots> = cell_at (columns left) cs x" by (rule cell_at_absent [OF False, symmetric])
    finally show ?thesis .
  qed
qed

lemma merge_label_hidden:
  assumes F: "merge left right keys = Inr F" and u: "unsuffixed x"
    and l: "x \<in> set (columns left)" and k: "x \<notin> set keys" and r: "x \<in> set (columns right)"
  shows "x \<notin> set (columns F)"
  unfolding merge_columns [OF F] using l k r by (auto simp: unsuffixed_neq [OF u])

lemma merge_label_brought:
  assumes F: "merge left right keys = Inr F" and u: "unsuffixed x"
    and l: "x \<notin> set (columns left)" and k: "x \<notin> set keys"
  shows "count_list (columns F) x = count_list (columns right) x"
    and "length cs = length (columns left) \<Longrightarrow> length (snd d) = length (columns right) \<Longrightarrow>
         cell_at (columns F) (cs @ other_cells keys right d) x = cell_at (columns right) (snd d) x"
proof -
  define ren where "ren = (\<lambda>c. if c \<in> set (columns left) \<and> c \<notin> set keys \<and> c \<in> set (columns right)
                    then c @ ''_x'' else c)"
  define ren' where "ren' = (\<lambda>c. if c \<in> set (columns left) \<and> c \<notin> set keys \<and> c \<in> set (columns right)
                      then c @ ''_y'' else c)"
  define rrest where "rrest = filter (\<lambda>c. c \<notin> set keys) (columns right)"
  have c: "columns F = map ren (columns left) @ map ren' rrest"
    unfolding ren_def ren'_def rrest_def by (rule merge_columns [OF F])
  note n = unsuffixed_neq [OF u]
  have st: "(ren' c = x) = (c = x)" for c
    using l by (auto simp: ren'_def n)
  have nx: "x \<notin> set (map ren (columns left))"
    using l by (auto simp: ren_def n)
  have "count_list (map ren' rrest) x = count_list rrest x"
    by (rule count_list_map_stable) (rule st)
  also have "\<dots> = count_list (columns right) x"
    unfolding rrest_def using k by (intro count_list_filter) simp
  finally show "count_list (columns F) x = count_list (columns right) x"
    unfolding c using nx by simp
  assume len: "length cs = length (columns left)" and lend: "length (snd d) = length (columns right)"
  from len have len': "length cs = length (map ren (columns left))" by simp
  have "cell_at (map ren' rrest) (other_cells keys right d) x
          = cell_at rrest (other_cells keys right d) x"
    by (rule cell_at_map_stable) (rule st)
  also have "\<dots> = cell_at (columns right) (snd d) x"
    unfolding rrest_def by (rule cell_at_other_cells [OF lend k])
  finally have r: "cell_at (map ren' rrest) (other_cells keys right d) x
          = cell_at (columns right) (snd d) x" .
  have "cell_at (columns F) (cs @ other_cells keys right d) x
          = cell_at (map ren' rrest) (other_cells keys right d) x"
    unfolding c by (rule cell_at_append_right [OF len' nx])
  with r show "cell_at (columns F) (cs @ other_cells keys right d) x = cell_at (columns right) (snd d) x"
    by simp
qed

subsection \<open>Rows through a join\<close>

lemma map_singleton: "map g ys = [x] \<Longrightarrow> \<exists>d. ys = [d] \<and> x = g d"
  by (cases ys) auto

lemma merge_rows_nth:
  assumes F: "merge left right keys = Inr F"
    and one: "\<And>l. l \<in> set (rows left) \<Longrightarrow>
        length (filter (\<lambda>r. join_key keys right r = join_key keys left l) (rows right)) = 1"
  shows "length (rows F) = length (rows left)"
    and "i < length (rows left) \<Longrightarrow>
         \<exists>d. filter (\<lambda>r. join_key keys right r = join_key keys left (rows left ! i)) (rows right) = [d]
             \<and> snd (rows F ! i) = snd (rows left ! i) @ other_cells keys right d"
proof -
  define h where "h = (\<lambda>l. map (\<lambda>r. (fst l, snd l @ other_cells keys right r))
                 (filter (\<lambda>r. join_key keys right r = join_key keys left l) (rows right)))"
  define xs where "xs = concat (map h (rows left))"
  have rows: "rows F = renumber xs"
    unfolding xs_def h_def by (rule merge_success(3) [OF F])
  have "\<And>l. l \<in> set (rows left) \<Longrightarrow> \<exists>x. h l = [x]"
    unfolding h_def using one by (intro length_one_singleton) simp
  from concat_singletons_all2 [of "rows left" h, OF this]
  have all2: "list_all2 (\<lambda>l x. h l = [x]) (rows left) xs" by (simp add: xs_def)
  have lx: "length xs = length (rows left)" using list_all2_lengthD [OF all2] by simp
  show "length (rows F) = length (rows left)" unfolding rows using lx by simp
  assume i: "i < length (rows left)"
  have "h (rows left ! i) = [xs ! i]" using list_all2_nthD [OF all2 i] .
  from map_singleton [OF this [unfolded h_def]] obtain d where
    d: "filter (\<lambda>r. join_key keys right r = join_key keys left (rows left ! i)) (rows right) = [d]"
    and x: "xs ! i = (fst (rows left ! i), snd (rows left ! i) @ other_cells keys right d)"
    by blast
  have "snd (rows F ! i) = snd (xs ! i)"
    unfolding rows using i lx by (simp add: nth_renumber)
  with d x show "\<exists>d. filter (\<lambda>r. join_key keys right r = join_key keys left (rows left ! i)) (rows right) = [d]
             \<and> snd (rows F ! i) = snd (rows left ! i) @ other_cells keys right d"
    by simp
qed

lemma wf_frame_nth: "wf_frame df \<Longrightarrow> i < length (rows df) \<Longrightarrow> length (snd (rows df ! i)) = length (columns df)"
  by (simp add: wf_frame_def list_all_length)

lemma wf_frame_mem: "wf_frame df \<Longrightarrow> r \<in> set (rows df) \<Longrightarrow> length (snd r) = length (columns df)"
  by (simp add: wf_frame_def list_all_iff)

lemma merge_wf:
  assumes F: "merge left right keys = Inr F"
    and one: "\<And>l. l \<in> set (rows left) \<Longrightarrow>
        length (filter (\<lambda>r. join_key keys right r = join_key keys left l) (rows right)) = 1"
    and wfl: "wf_frame left" and wfr: "wf_frame right"
  shows "wf_frame F"
proof -
  have len: "length (columns F) = length (columns left)
               + length (filter (\<lambda>c. c \<notin> set keys) (columns right))"
    unfolding merge_columns [OF F] by simp
  have "length (snd (rows F ! i)) = length (columns F)" if i: "i < length (rows F)" for i
  proof -
    from i have i': "i < length (rows left)" using merge_rows_nth(1) [OF F one] by simp
    from merge_rows_nth(2) [OF F one i'] obtain d where
      d: "filter (\<lambda>r. join_key keys right r = join_key keys left (rows left ! i)) (rows right) = [d]"
      and s: "snd (rows F ! i) = snd (rows left ! i) @ other_cells keys right d" by blast
    have "d \<in> set (filter (\<lambda>r. join_key keys right r = join_key keys left (rows left ! i)) (rows right))"
      unfolding d by simp
    then have "d \<in> set (rows right)" by simp
    then have "length (snd d) = length (columns right)" by (rule wf_frame_mem [OF wfr])
    then show ?thesis
      unfolding s len using wf_frame_nth [OF wfl i'] by (simp add: length_other_cells)
  qed
  then show ?thesis by (simp add: wf_frame_def list_all_length)
qed

subsection \<open>Labels carried\<close>

lemma carries_refl: "carries A A x"
  by (simp add: carries_def)

lemma carries_trans: "carries A B x \<Longrightarrow> carries B C x \<Longrightarrow> carries A C x"
  by (simp add: carries_def)

lemma carries_length: "carries A B x \<Longrightarrow> length (rows B) = length (rows A)"
  unfolding carries_def by (auto dest: map_eq_imp_length_eq)

lemma carries_cell:
  assumes "carries A B x" and "i < length (rows A)"
  shows "cell_at (columns B) (snd (rows B ! i)) x = cell_at (columns A) (snd (rows A ! i)) x"
proof -
  from assms(1) have m: "map (\<lambda>r. cell_at (columns B) (snd r) x) (rows B)
          = map (\<lambda>r. cell_at (columns A) (snd r) x) (rows A)" by (simp add: carries_def)
  have l: "i < length (rows B)" using carries_length [OF assms(1)] assms(2) by simp
  have "map (\<lambda>r. cell_at (columns B) (snd r) x) (rows B) ! i
          = map (\<lambda>r. cell_at (columns A) (snd r) x) (rows A) ! i" by (simp only: m)
  then show ?thesis using l assms(2) by simp
qed

lemma carries_mem: "carries A B x \<Longrightarrow> (x \<in> set (columns B)) = (x \<in> set (columns A))"
  using count_list_0_iff [of "columns B" x] count_list_0_iff [of "columns A" x]
  by (simp add: carries_def)

lemma carries_join_key:
  assumes "\<forall>k\<in>set keys. carries A B k" and "i < length (rows A)"
  shows "join_key keys B (rows B ! i) = join_key keys A (rows A ! i)"
  unfolding join_key_def using assms by (intro map_cong) (auto simp: carries_cell)

lemma one_match:
  assumes kc: "\<forall>k\<in>set keys. carries C left k"
    and len: "length (rows left) = length (rows C)"
    and dist: "distinct (map (join_key keys D) (rows D))"
    and cover: "set (map (join_key keys C) (rows C)) \<subseteq> set (map (join_key keys D) (rows D))"
    and l: "l \<in> set (rows left)"
  shows "length (filter (\<lambda>r. join_key keys D r = join_key keys left l) (rows D)) = 1"
proof -
  from l obtain i where i: "i < length (rows left)" and li: "rows left ! i = l"
    by (auto simp: in_set_conv_nth)
  from i len have i': "i < length (rows C)" by simp
  have k: "join_key keys left l = join_key keys C (rows C ! i)"
    unfolding li [symmetric] by (rule carries_join_key [OF kc i'])
  have "rows C ! i \<in> set (rows C)" using i' by simp
  then have "join_key keys C (rows C ! i) \<in> join_key keys D ` set (rows D)"
    using cover by auto
  from count_distinct_map [OF dist this] show ?thesis unfolding k .
qed

lemma join_stage:
  assumes F: "merge left D keys = Inr F"
    and wfl: "wf_frame left"
    and df: "dim_facts keys id_label C D" and dk: "distinct keys"
    and kc: "\<forall>k\<in>set keys. carries C left k"
    and len: "length (rows left) = length (rows C)"
  shows "wf_frame F"
    and "length (rows F) = length (rows C)"
    and "\<And>x. unsuffixed x \<Longrightarrow> x \<in> set keys \<or> x \<notin> set (columns D) \<Longrightarrow> carries left F x"
    and "\<And>x i. unsuffixed x \<Longrightarrow> x \<notin> set keys \<Longrightarrow> x \<in> set (columns D) \<Longrightarrow> x \<in> set (columns F) \<Longrightarrow>
           i < length (rows C) \<Longrightarrow>
           \<exists>d. filter (\<lambda>d. join_key keys D d = join_key keys C (rows C ! i)) (rows D) = [d]
               \<and> cell_at (columns F) (snd (rows F ! i)) x = cell_at (columns D) (snd d) x"
proof -
  note keys = dim_facts_keys [OF df dk]
  from df have dist: "distinct (map (join_key keys D) (rows D))"
    and cover: "set (map (join_key keys C) (rows C)) \<subseteq> set (map (join_key keys D) (rows D))"
    and wfD: "wf_frame D"
    unfolding keys by (simp_all add: dim_facts_def)
  have one: "\<And>l. l \<in> set (rows left) \<Longrightarrow>
        length (filter (\<lambda>r. join_key keys D r = join_key keys left l) (rows D)) = 1"
    by (rule one_match [OF kc len dist cover])
  show "wf_frame F" by (rule merge_wf [OF F one wfl wfD])
  have lF: "length (rows F) = length (rows left)" by (rule merge_rows_nth(1) [OF F one])
  show "length (rows F) = length (rows C)" using lF len by simp
  show "carries left F x" if u: "unsuffixed x" and nr: "x \<in> set keys \<or> x \<notin> set (columns D)" for x
  proof -
    have "cell_at (columns F) (snd (rows F ! i)) x = cell_at (columns left) (snd (rows left ! i)) x"
      if i: "i < length (rows left)" for i
    proof -
      from merge_rows_nth(2) [OF F one i] obtain d where
        s: "snd (rows F ! i) = snd (rows left ! i) @ other_cells keys D d" by blast
      show ?thesis
        unfolding s by (rule merge_label_kept(2) [OF F u nr wf_frame_nth [OF wfl i]])
    qed
    then have "map (\<lambda>r. cell_at (columns F) (snd r) x) (rows F)
                 = map (\<lambda>r. cell_at (columns left) (snd r) x) (rows left)"
      using lF by (intro nth_equalityI) simp_all
    with merge_label_kept(1) [OF F u nr] show ?thesis by (simp add: carries_def)
  qed
  show "\<exists>d. filter (\<lambda>d. join_key keys D d = join_key keys C (rows C ! i)) (rows D) = [d]
               \<and> cell_at (columns F) (snd (rows F ! i)) x = cell_at (columns D) (snd d) x"
    if u: "unsuffixed x" and k: "x \<notin> set keys" and xD: "x \<in> set (columns D)"
      and xF: "x \<in> set (columns F)" and i: "i < length (rows C)" for x i
  proof -
    have l: "x \<notin> set (columns left)"
      using merge_label_hidden [OF F u _ k xD] xF by blast
    from i len have i': "i < length (rows left)" by simp
    from merge_rows_nth(2) [OF F one i'] obtain d where
      d: "filter (\<lambda>r. join_key keys D r = join_key keys left (rows left ! i)) (rows D) = [d]"
      and s: "snd (rows F ! i) = snd (rows left ! i) @ other_cells keys D d" by blast
    have "d \<in> set (filter (\<lambda>r. join_key keys D r = join_key keys left (rows left ! i)) (rows D))"
      unfolding d by simp
    then have "d \<in> set (rows D)" by simp
    then have ld: "length (snd d) = length (columns D)" by (rule wf_frame_mem [OF wfD])
    have c: "cell_at (columns F) (snd (rows F ! i)) x = cell_at (columns D) (snd d) x"
      unfolding s by (rule merge_label_brought(2) [OF F u l k wf_frame_nth [OF wfl i'] ld])
    have jk: "join_key keys left (rows left ! i) = join_key keys C (rows C ! i)"
      by (rule carries_join_key [OF kc i])
    from d c show ?thesis unfolding jk by blast
  qed
qed

subsection \<open>The projection of the joined frame\<close>

lemma distinct_concat_mem: "distinct (concat xss) \<Longrightarrow> xs \<in> set xss \<Longrightarrow> distinct xs"
  by (induction xss) auto

lemma distinct_replicate_le: "distinct (replicate n a) \<Longrightarrow> n \<le> 1"
proof (cases n)
  case 0
  then show ?thesis by simp
next
  case (Suc m)
  assume "distinct (replicate n a)"
  with Suc show ?thesis by (cases m) simp_all
qed

lemma select_distinct_counts:
  assumes sel: "select_columns ls df = Inr sel" and dist: "distinct (columns sel)"
  shows "\<forall>a\<in>set ls. count_list (columns df) a = 1"
proof
  fix a assume a: "a \<in> set ls"
  from sel have c: "columns sel = concat (map (\<lambda>l. filter (\<lambda>c. c = l) (columns df)) ls)"
    by (auto simp: select_columns_def split: if_splits)
  have "filter (\<lambda>c. c = a) (columns df) \<in> set (map (\<lambda>l. filter (\<lambda>c. c = l) (columns df)) ls)"
    using a by auto
  with dist have "distinct (filter (\<lambda>c. c = a) (columns df))"
    unfolding c by (rule distinct_concat_mem)
  then have "count_list (columns df) a \<le> 1"
    unfolding filter_eq_replicate by (rule distinct_replicate_le)
  moreover have "a \<in> set (columns df)" using select_columns_present [OF sel] a by blast
  then have "count_list (columns df) a \<noteq> 0" by (simp add: count_list_0_iff)
  ultimately show "count_list (columns df) a = 1" by simp
qed

lemma references_table_of:
  assumes d: "filter (\<lambda>d. join_key attrs D d = join_key attrs C r) (rows D) = [d]"
    and k: "cell_at (columns D) (snd d) id_label = key"
  shows "references (table_of D) attrs id_label C r key"
proof -
  have "filter (\<lambda>cs. map (cell_at (columns D) cs) attrs = join_key attrs C r) (map snd (rows D))
          = map snd (filter (\<lambda>d. join_key attrs D d = join_key attrs C r) (rows D))"
    by (simp add: filter_map comp_def join_key_def)
  then have "filter (\<lambda>cs. map (cell_at (columns D) cs) attrs = join_key attrs C r) (map snd (rows D))
          = [snd d]" unfolding d by simp
  then show ?thesis using k by (simp add: references_def table_of_def)
qed

lemma used_labels_unsuffixed: "\<forall>x\<in>set used_labels. unsuffixed x"
  by (simp add: used_labels_def time_attrs_def empresa_attrs_def pais_attrs_def
      mercancia_attrs_def unsuffixed_def)

lemma id_labels_unsuffixed:
  "unsuffixed ''TIME_ID''" "unsuffixed ''EMPRESA_ID''" "unsuffixed ''PAIS_ID''"
  "unsuffixed ''MERCANCIA_ID''"
  by (simp_all add: unsuffixed_def)

lemma fact_rows_reference:
  assumes wfC: "wf_frame C"
    and dt: "dim_facts time_attrs ''TIME_ID'' C Dt"
    and ct: "columns Dt = [FECHA, ''TIME_ID'', ''YEAR'', ''MONTH'', ''DAY'']"
    and de: "dim_facts empresa_attrs ''EMPRESA_ID'' C De"
    and ce: "columns De = empresa_attrs @ [''EMPRESA_ID'']"
    and dp: "dim_facts pais_attrs ''PAIS_ID'' C Dp"
    and cp: "columns Dp = pais_attrs @ [''PAIS_ID'']"
    and dm: "dim_facts mercancia_attrs ''MERCANCIA_ID'' C Dm"
    and cm: "columns Dm = mercancia_attrs @ [''MERCANCIA_ID'']"
    and m1: "merge C Dt time_attrs = Inr f1"
    and m2: "merge f1 De empresa_attrs = Inr f2"
    and m3: "merge f2 Dp pais_attrs = Inr f3"
    and m4: "merge f3 Dm mercancia_attrs = Inr f4"
    and sel: "select_columns fact_columns f4 = Inr fact_df"
    and dist: "distinct (columns fact_df)"
  shows "columns fact_df = fact_columns"
    and "length (rows fact_df) = length (rows C)"
    and "i < length (rows C) \<Longrightarrow>
         fact_row (table_of Dt) (table_of De) (table_of Dp) (table_of Dm) C (rows C ! i)
           (snd (rows fact_df ! i))"
proof -
  note u = used_labels_unsuffixed
  have a1: "\<forall>x\<in>set used_labels. x \<in> set time_attrs \<or> x \<notin> set (columns Dt)"
    unfolding ct
    by (simp add: used_labels_def time_attrs_def empresa_attrs_def pais_attrs_def mercancia_attrs_def)
  have a2: "\<forall>x\<in>set used_labels. x \<in> set empresa_attrs \<or> x \<notin> set (columns De)"
    unfolding ce
    by (simp add: used_labels_def time_attrs_def empresa_attrs_def pais_attrs_def mercancia_attrs_def)
  have a3: "\<forall>x\<in>set used_labels. x \<in> set pais_attrs \<or> x \<notin> set (columns Dp)"
    unfolding cp
    by (simp add: used_labels_def time_attrs_def empresa_attrs_def pais_attrs_def mercancia_attrs_def)
  have a4: "\<forall>x\<in>set used_labels. x \<in> set mercancia_attrs \<or> x \<notin> set (columns Dm)"
    unfolding cm
    by (simp add: used_labels_def time_attrs_def empresa_attrs_def pais_attrs_def mercancia_attrs_def)
  have sub: "set time_attrs \<subseteq> set used_labels" "set empresa_attrs \<subseteq> set used_labels"
    "set pais_attrs \<subseteq> set used_labels" "set mercancia_attrs \<subseteq> set used_labels"
    by (auto simp: used_labels_def)
  have dk: "distinct time_attrs" "distinct empresa_attrs" "distinct pais_attrs"
    "distinct mercancia_attrs"
    by (simp_all add: time_attrs_def empresa_attrs_def pais_attrs_def mercancia_attrs_def)
  \<comment> \<open>first join\<close>
  have k1: "\<forall>k\<in>set time_attrs. carries C C k" by (simp add: carries_refl)
  note j1 = join_stage [OF m1 wfC dt dk(1) k1 refl]
  have c1: "\<forall>x\<in>set used_labels. carries C f1 x" using j1(3) u a1 by blast
  \<comment> \<open>second join\<close>
  have k2: "\<forall>k\<in>set empresa_attrs. carries C f1 k" using c1 sub(2) by blast
  note j2 = join_stage [OF m2 j1(1) de dk(2) k2 j1(2)]
  have c2: "\<forall>x\<in>set used_labels. carries C f2 x"
    using c1 j2(3) u a2 by (blast intro: carries_trans)
  \<comment> \<open>third join\<close>
  have k3: "\<forall>k\<in>set pais_attrs. carries C f2 k" using c2 sub(3) by blast
  note j3 = join_stage [OF m3 j2(1) dp dk(3) k3 j2(2)]
  have c3: "\<forall>x\<in>set used_labels. carries C f3 x"
    using c2 j3(3) u a3 by (blast intro: carries_trans)
  \<comment> \<open>fourth join\<close>
  have k4: "\<forall>k\<in>set mercancia_attrs. carries C f3 k" using c3 sub(4) by blast
  note j4 = join_stage [OF m4 j3(1) dm dk(4) k4 j3(2)]
  have c4: "\<forall>x\<in>set used_labels. carries C f4 x"
    using c3 j4(3) u a4 by (blast intro: carries_trans)
  \<comment> \<open>the projection\<close>
  have counts: "\<forall>a\<in>set fact_columns. count_list (columns f4) a = 1"
    by (rule select_distinct_counts [OF sel dist])
  note s = select_columns_unique [OF sel counts j4(1)]
  show "columns fact_df = fact_columns" by (rule s(1))
  show "length (rows fact_df) = length (rows C)" unfolding s(2) using j4(2) by simp
  have present: "''TIME_ID'' \<in> set (columns f4)" "''EMPRESA_ID'' \<in> set (columns f4)"
    "''PAIS_ID'' \<in> set (columns f4)" "''MERCANCIA_ID'' \<in> set (columns f4)"
    using select_columns_present [OF sel] by (simp_all add: fact_columns_def)
  assume i: "i < length (rows C)"
  define r where "r = rows C ! i"
  define cs where "cs = snd (rows f4 ! i)"
  have i1: "i < length (rows f1)" and i2: "i < length (rows f2)" and i3: "i < length (rows f3)"
    and i4: "i < length (rows f4)"
    using i j1(2) j2(2) j3(2) j4(2) by simp_all
  \<comment> \<open>the key of the time dimension\<close>
  have t2: "carries f1 f2 ''TIME_ID''"
    by (rule j2(3) [OF id_labels_unsuffixed(1)]) (simp add: ce empresa_attrs_def)
  have t3: "carries f2 f3 ''TIME_ID''"
    by (rule j3(3) [OF id_labels_unsuffixed(1)]) (simp add: cp pais_attrs_def)
  have t4: "carries f3 f4 ''TIME_ID''"
    by (rule j4(3) [OF id_labels_unsuffixed(1)]) (simp add: cm mercancia_attrs_def)
  have t14: "carries f1 f4 ''TIME_ID''" using t2 t3 t4 by (blast intro: carries_trans)
  have tin: "''TIME_ID'' \<in> set (columns f1)" using carries_mem [OF t14] present(1) by simp
  have "\<exists>d. filter (\<lambda>d. join_key time_attrs Dt d = join_key time_attrs C (rows C ! i)) (rows Dt) = [d]
         \<and> cell_at (columns f1) (snd (rows f1 ! i)) ''TIME_ID'' = cell_at (columns Dt) (snd d) ''TIME_ID''"
    by (rule j1(4) [OF id_labels_unsuffixed(1) _ _ tin i]) (simp_all add: ct time_attrs_def)
  then obtain d1 where
    d1: "filter (\<lambda>d. join_key time_attrs Dt d = join_key time_attrs C r) (rows Dt) = [d1]"
    and v1: "cell_at (columns f1) (snd (rows f1 ! i)) ''TIME_ID'' = cell_at (columns Dt) (snd d1) ''TIME_ID''"
    unfolding r_def by blast
  have "cell_at (columns Dt) (snd d1) ''TIME_ID'' = cell_at (columns f4) cs ''TIME_ID''"
    unfolding cs_def v1 [symmetric] by (rule carries_cell [OF t14 i1, symmetric])
  then have R1: "references (table_of Dt) time_attrs ''TIME_ID'' C r (cell_at (columns f4) cs ''TIME_ID'')"
    by (rule references_table_of [OF d1])
  \<comment> \<open>the key of the company dimension\<close>
  have e3: "carries f2 f3 ''EMPRESA_ID''"
    by (rule j3(3) [OF id_labels_unsuffixed(2)]) (simp add: cp pais_attrs_def)
  have e4: "carries f3 f4 ''EMPRESA_ID''"
    by (rule j4(3) [OF id_labels_unsuffixed(2)]) (simp add: cm mercancia_attrs_def)
  have e24: "carries f2 f4 ''EMPRESA_ID''" using e3 e4 by (blast intro: carries_trans)
  have ein: "''EMPRESA_ID'' \<in> set (columns f2)" using carries_mem [OF e24] present(2) by simp
  have "\<exists>d. filter (\<lambda>d. join_key empresa_attrs De d = join_key empresa_attrs C (rows C ! i)) (rows De) = [d]
         \<and> cell_at (columns f2) (snd (rows f2 ! i)) ''EMPRESA_ID'' = cell_at (columns De) (snd d) ''EMPRESA_ID''"
    by (rule j2(4) [OF id_labels_unsuffixed(2) _ _ ein i]) (simp_all add: ce empresa_attrs_def)
  then obtain d2 where
    d2: "filter (\<lambda>d. join_key empresa_attrs De d = join_key empresa_attrs C r) (rows De) = [d2]"
    and v2: "cell_at (columns f2) (snd (rows f2 ! i)) ''EMPRESA_ID'' = cell_at (columns De) (snd d2) ''EMPRESA_ID''"
    unfolding r_def by blast
  have "cell_at (columns De) (snd d2) ''EMPRESA_ID'' = cell_at (columns f4) cs ''EMPRESA_ID''"
    unfolding cs_def v2 [symmetric] by (rule carries_cell [OF e24 i2, symmetric])
  then have R2: "references (table_of De) empresa_attrs ''EMPRESA_ID'' C r (cell_at (columns f4) cs ''EMPRESA_ID'')"
    by (rule references_table_of [OF d2])
  \<comment> \<open>the key of the country dimension\<close>
  have p34: "carries f3 f4 ''PAIS_ID''"
    by (rule j4(3) [OF id_labels_unsuffixed(3)]) (simp add: cm mercancia_attrs_def)
  have pin: "''PAIS_ID'' \<in> set (columns f3)" using carries_mem [OF p34] present(3) by simp
  have "\<exists>d. filter (\<lambda>d. join_key pais_attrs Dp d = join_key pais_attrs C (rows C ! i)) (rows Dp) = [d]
         \<and> cell_at (columns f3) (snd (rows f3 ! i)) ''PAIS_ID'' = cell_at (columns Dp) (snd d) ''PAIS_ID''"
    by (rule j3(4) [OF id_labels_unsuffixed(3) _ _ pin i]) (simp_all add: cp pais_attrs_def)
  then obtain d3 where
    d3: "filter (\<lambda>d. join_key pais_attrs Dp d = join_key pais_attrs C r) (rows Dp) = [d3]"
    and v3: "cell_at (columns f3) (snd (rows f3 ! i)) ''PAIS_ID'' = cell_at (columns Dp) (snd d3) ''PAIS_ID''"
    unfolding r_def by blast
  have "cell_at (columns Dp) (snd d3) ''PAIS_ID'' = cell_at (columns f4) cs ''PAIS_ID''"
    unfolding cs_def v3 [symmetric] by (rule carries_cell [OF p34 i3, symmetric])
  then have R3: "references (table_of Dp) pais_attrs ''PAIS_ID'' C r (cell_at (columns f4) cs ''PAIS_ID'')"
    by (rule references_table_of [OF d3])
  \<comment> \<open>the key of the merchandise dimension\<close>
  have "\<exists>d. filter (\<lambda>d. join_key mercancia_attrs Dm d = join_key mercancia_attrs C (rows C ! i)) (rows Dm) = [d]
         \<and> cell_at (columns f4) (snd (rows f4 ! i)) ''MERCANCIA_ID'' = cell_at (columns Dm) (snd d) ''MERCANCIA_ID''"
    by (rule j4(4) [OF id_labels_unsuffixed(4) _ _ present(4) i]) (simp_all add: cm mercancia_attrs_def)
  then obtain d4 where
    d4: "filter (\<lambda>d. join_key mercancia_attrs Dm d = join_key mercancia_attrs C r) (rows Dm) = [d4]"
    and v4: "cell_at (columns Dm) (snd d4) ''MERCANCIA_ID'' = cell_at (columns f4) cs ''MERCANCIA_ID''"
    unfolding r_def cs_def by (auto simp: eq_commute)
  have R4: "references (table_of Dm) mercancia_attrs ''MERCANCIA_ID'' C r (cell_at (columns f4) cs ''MERCANCIA_ID'')"
    by (rule references_table_of [OF d4 v4])
  \<comment> \<open>the measures and the form number\<close>
  have meas: "cell_at (columns f4) cs x = cell_at (columns C) (snd r) x"
    if "x \<in> set used_labels" for x
    unfolding cs_def r_def using c4 that by (intro carries_cell [OF _ i]) blast
  have M: "cell_at (columns f4) cs ''VALOR_FOB_USD'' = cell_at (columns C) (snd r) ''VALOR_FOB_USD''"
    "cell_at (columns f4) cs ''PESO_NETO_KGS'' = cell_at (columns C) (snd r) ''PESO_NETO_KGS''"
    "cell_at (columns f4) cs ''CANTIDAD_UNIDADES_FISICAS''
       = cell_at (columns C) (snd r) ''CANTIDAD_UNIDADES_FISICAS''"
    "cell_at (columns f4) cs NUMERO_FORMULARIO = cell_at (columns C) (snd r) NUMERO_FORMULARIO"
    by (rule meas, simp add: used_labels_def)+
  have row: "snd (rows fact_df ! i) = map (cell_at (columns f4) cs) fact_columns"
    unfolding s(2) cs_def using i4 by (simp add: join_key_def)
  show "fact_row (table_of Dt) (table_of De) (table_of Dp) (table_of Dm) C (rows C ! i)
           (snd (rows fact_df ! i))"
    unfolding row r_def [symmetric] fact_row_def
    using R1 R2 R3 R4 M by (simp add: fact_columns_def)
qed

lemma build_success:
  assumes ok: "snd (build_semantic_layer core w) = None"
    and ne: "\<not> is_empty (heap w core)"
    and alloc: "core < fresh w"
    and wf: "wf_frame (heap w core)"
  shows "\<exists>Dt De Dp Dm fact.
           dim_facts time_attrs ''TIME_ID'' (heap w core) Dt
           \<and> dim_facts empresa_attrs ''EMPRESA_ID'' (heap w core) De
           \<and> dim_facts pais_attrs ''PAIS_ID'' (heap w core) Dp
           \<and> dim_facts mercancia_attrs ''MERCANCIA_ID'' (heap w core) Dm
           \<and> db (fst (build_semantic_layer core w)) ''DIM_TIME'' = Some (table_of Dt)
           \<and> db (fst (build_semantic_layer core w)) ''DIM_EMPRESA'' = Some (table_of De)
           \<and> db (fst (build_semantic_layer core w)) ''DIM_PAIS'' = Some (table_of Dp)
           \<and> db (fst (build_semantic_layer core w)) ''DIM_MERCANCIA'' = Some (table_of Dm)
           \<and> db (fst (build_semantic_layer core w)) ''FACT_EXPORTACIONES'' = Some (table_of fact)
           \<and> length (rows fact) = length (rows (heap w core))
           \<and> columns fact = fact_columns
           \<and> (\<forall>i<length (rows (heap w core)).
                 fact_row (table_of Dt) (table_of De) (table_of Dp) (table_of Dm) (heap w core)
                   (rows (heap w core) ! i) (snd (rows fact ! i)))"
proof -
  define C where "C = heap w core"
  define w0 where "w0 = logging InfoConnected w"
  have w0: "heap w0 = heap w" "fresh w0 = fresh w" by (simp_all add: w0_def logging_def)
  from ok ne obtain w1 dt w2 de w3 dp w4 dm w5 where
    t: "build_dim_time core w0 = (w1, Inr dt)"
    and e: "build_dim core empresa_attrs ''EMPRESA_ID'' ''DIM_EMPRESA'' w1 = (w2, Inr de)"
    and p: "build_dim core pais_attrs ''PAIS_ID'' ''DIM_PAIS'' w2 = (w3, Inr dp)"
    and m: "build_dim core mercancia_attrs ''MERCANCIA_ID'' ''DIM_MERCANCIA'' w3 = (w4, Inr dm)"
    and f: "build_fact core dt de dp dm w4 = (w5, None)"
    and res: "fst (build_semantic_layer core w) = logging InfoSemanticBuilt w5"
    unfolding build_semantic_layer_def w0_def [symmetric] Let_def
    by (auto split: prod.splits sum.splits option.splits if_splits)
  note tr = build_dim_time_result [OF t] and er = build_dim_result [OF e]
    and pr = build_dim_result [OF p] and mr = build_dim_result [OF m]
    and fr = build_fact_result [OF f]
  have refs: "dt = fresh w" "de = Suc (fresh w)" "dp = Suc (Suc (fresh w))"
    "dm = Suc (Suc (Suc (fresh w)))"
    using tr(1,2) er(1,2) pr(1,2) mr(1) w0 by simp_all
  have fr1: "fresh w1 = Suc (fresh w)" "fresh w2 = Suc (Suc (fresh w))"
    "fresh w3 = Suc (Suc (Suc (fresh w)))"
    using tr(2) er(2) pr(2) w0 by simp_all
  have c1: "heap w1 core = C" using tr(3) [of core] alloc w0 by (simp add: C_def)
  have c2: "heap w2 core = C" using er(3) [of core] alloc fr1 c1 by simp
  have c3: "heap w3 core = C" using pr(3) [of core] alloc fr1 c2 by simp
  have c4: "heap w4 core = C" using mr(3) [of core] alloc fr1 c3 by simp
  define Dt where "Dt = heap w1 dt"
  define De where "De = heap w2 de"
  define Dp where "Dp = heap w3 dp"
  define Dm where "Dm = heap w4 dm"
  have h4: "heap w4 dt = Dt" "heap w4 de = De" "heap w4 dp = Dp"
    using er(3) [of dt] pr(3) [of dt] mr(3) [of dt] pr(3) [of de] mr(3) [of de] mr(3) [of dp]
    unfolding fr1 refs Dt_def De_def Dp_def refs by simp_all
  have h2: "heap w2 dt = Dt" "heap w3 dt = Dt" "heap w3 de = De"
    using er(3) [of dt] pr(3) [of dt] pr(3) [of de]
    unfolding fr1 refs Dt_def De_def refs by simp_all
  from fr(1) obtain f1 f2 f3 f4 fact where
    m1: "merge C Dt time_attrs = Inr f1"
    and m2: "merge f1 De empresa_attrs = Inr f2"
    and m3: "merge f2 Dp pais_attrs = Inr f3"
    and m4: "merge f3 Dm mercancia_attrs = Inr f4"
    and sel: "select_columns fact_columns f4 = Inr fact"
    and distf: "distinct (columns fact)"
    and dbf: "db w5 = (db w4)(''FACT_EXPORTACIONES'' \<mapsto> table_of fact)"
    unfolding c4 h4 Dm_def [symmetric] by blast
  have wfC: "wf_frame C" using wf by (simp add: C_def)
  \<comment> \<open>the time dimension\<close>
  from tr(4) obtain D0 ys ms ds where
    D0: "dimension_frame time_attrs ''TIME_ID'' C = Inr D0"
    and ly: "length ys = length (rows D0)"
    and lm: "length ms = length (rows (set_column ''YEAR'' ys D0))"
    and ld: "length ds = length (rows (set_column ''MONTH'' ms (set_column ''YEAR'' ys D0)))"
    and Dt: "Dt = set_column ''DAY'' ds (set_column ''MONTH'' ms (set_column ''YEAR'' ys D0))"
    unfolding w0 C_def [symmetric] Dt_def [symmetric] by blast
  have De0: "dimension_frame empresa_attrs ''EMPRESA_ID'' C = Inr De"
    using er(4) unfolding c1 De_def .
  have Dp0: "dimension_frame pais_attrs ''PAIS_ID'' C = Inr Dp"
    using pr(4) unfolding c2 Dp_def .
  have Dm0: "dimension_frame mercancia_attrs ''MERCANCIA_ID'' C = Inr Dm"
    using mr(4) unfolding c3 Dm_def .
  have I0: "fact_extends C key_labels C" by (rule fact_extends_refl)
  \<comment> \<open>first join\<close>
  have t_facts: "dim_facts time_attrs ''TIME_ID'' C Dt" if "\<forall>k\<in>set time_attrs. count_list (columns C) k = 1"
    unfolding Dt by (rule time_dim_facts(1) [OF D0 that wfC ly lm ld])
  have t_cols: "columns Dt = [FECHA, ''TIME_ID'', ''YEAR'', ''MONTH'', ''DAY'']"
    if "\<forall>k\<in>set time_attrs. count_list (columns C) k = 1"
    unfolding Dt by (rule time_dim_facts(2) [OF D0 that wfC ly lm ld])
  have u1: "\<forall>k\<in>set time_attrs. count_list (columns C) k = 1"
    by (rule merge_keys_unique_in_core [OF I0 m1 _ dimension_frame_present [OF D0]])
       (auto simp: key_labels_def)
  have a1: "\<forall>k\<in>key_labels. k \<in> set time_attrs \<or> k \<notin> set (columns Dt)"
    unfolding t_cols [OF u1]
    by (simp add: key_labels_def time_attrs_def empresa_attrs_def pais_attrs_def mercancia_attrs_def)
  have s1: "fact_extends C key_labels f1" "dim_facts time_attrs ''TIME_ID'' C Dt"
    by (rule merge_step [OF I0 wfC m1 _ dimension_frame_present [OF D0] t_facts a1];
        simp add: key_labels_def time_attrs_def)+
  \<comment> \<open>second join\<close>
  have e_facts: "dim_facts empresa_attrs ''EMPRESA_ID'' C De"
    and e_cols: "columns De = empresa_attrs @ [''EMPRESA_ID'']"
    if "\<forall>k\<in>set empresa_attrs. count_list (columns C) k = 1"
    by (rule dim_facts_initial [OF De0 that wfC], simp add: empresa_attrs_def)+
  have u2: "\<forall>k\<in>set empresa_attrs. count_list (columns C) k = 1"
    by (rule merge_keys_unique_in_core [OF s1(1) m2 _ dimension_frame_present [OF De0]])
       (auto simp: key_labels_def)
  have a2: "\<forall>k\<in>key_labels. k \<in> set empresa_attrs \<or> k \<notin> set (columns De)"
    unfolding e_cols [OF u2]
    by (simp add: key_labels_def time_attrs_def empresa_attrs_def pais_attrs_def mercancia_attrs_def)
  have s2: "fact_extends C key_labels f2" "dim_facts empresa_attrs ''EMPRESA_ID'' C De"
    by (rule merge_step [OF s1(1) wfC m2 _ dimension_frame_present [OF De0] e_facts a2];
        simp add: key_labels_def empresa_attrs_def)+
  \<comment> \<open>third join\<close>
  have p_facts: "dim_facts pais_attrs ''PAIS_ID'' C Dp"
    and p_cols: "columns Dp = pais_attrs @ [''PAIS_ID'']"
    if "\<forall>k\<in>set pais_attrs. count_list (columns C) k = 1"
    by (rule dim_facts_initial [OF Dp0 that wfC], simp add: pais_attrs_def)+
  have u3: "\<forall>k\<in>set pais_attrs. count_list (columns C) k = 1"
    by (rule merge_keys_unique_in_core [OF s2(1) m3 _ dimension_frame_present [OF Dp0]])
       (auto simp: key_labels_def)
  have a3: "\<forall>k\<in>key_labels. k \<in> set pais_attrs \<or> k \<notin> set (columns Dp)"
    unfolding p_cols [OF u3]
    by (simp add: key_labels_def time_attrs_def empresa_attrs_def pais_attrs_def mercancia_attrs_def)
  have s3: "fact_extends C key_labels f3" "dim_facts pais_attrs ''PAIS_ID'' C Dp"
    by (rule merge_step [OF s2(1) wfC m3 _ dimension_frame_present [OF Dp0] p_facts a3];
        simp add: key_labels_def pais_attrs_def)+
  \<comment> \<open>fourth join\<close>
  have m_facts: "dim_facts mercancia_attrs ''MERCANCIA_ID'' C Dm"
    and m_cols: "columns Dm = mercancia_attrs @ [''MERCANCIA_ID'']"
    if "\<forall>k\<in>set mercancia_attrs. count_list (columns C) k = 1"
    by (rule dim_facts_initial [OF Dm0 that wfC], simp add: mercancia_attrs_def)+
  have u4: "\<forall>k\<in>set mercancia_attrs. count_list (columns C) k = 1"
    by (rule merge_keys_unique_in_core [OF s3(1) m4 _ dimension_frame_present [OF Dm0]])
       (auto simp: key_labels_def)
  have a4: "\<forall>k\<in>key_labels. k \<in> set mercancia_attrs \<or> k \<notin> set (columns Dm)"
    unfolding m_cols [OF u4]
    by (simp add: key_labels_def time_attrs_def empresa_attrs_def pais_attrs_def mercancia_attrs_def)
  have s4: "fact_extends C key_labels f4" "dim_facts mercancia_attrs ''MERCANCIA_ID'' C Dm"
    by (rule merge_step [OF s3(1) wfC m4 _ dimension_frame_present [OF Dm0] m_facts a4];
        simp add: key_labels_def mercancia_attrs_def)+
  have len: "length (rows fact) = length (rows C)"
    using select_columns_length [OF sel] fact_extends_length [OF s4(1)] by simp
  \<comment> \<open>the tables\<close>
  have db1: "db w1 = (db w0)(''DIM_TIME'' \<mapsto> table_of Dt)" using tr(5) by (simp add: Dt_def)
  have db2: "db w2 = (db w1)(''DIM_EMPRESA'' \<mapsto> table_of De)" using er(5) by (simp add: De_def)
  have db3: "db w3 = (db w2)(''DIM_PAIS'' \<mapsto> table_of Dp)" using pr(5) by (simp add: Dp_def)
  have db4: "db w4 = (db w3)(''DIM_MERCANCIA'' \<mapsto> table_of Dm)" using mr(5) by (simp add: Dm_def)
  have dbr: "db (fst (build_semantic_layer core w)) = db w5" unfolding res by (simp add: logging_def)
  have tables: "db (fst (build_semantic_layer core w)) ''DIM_TIME'' = Some (table_of Dt)"
    "db (fst (build_semantic_layer core w)) ''DIM_EMPRESA'' = Some (table_of De)"
    "db (fst (build_semantic_layer core w)) ''DIM_PAIS'' = Some (table_of Dp)"
    "db (fst (build_semantic_layer core w)) ''DIM_MERCANCIA'' = Some (table_of Dm)"
    "db (fst (build_semantic_layer core w)) ''FACT_EXPORTACIONES'' = Some (table_of fact)"
    unfolding dbr dbf db4 db3 db2 db1 by simp_all
  note ref = fact_rows_reference [OF wfC s1(2) t_cols [OF u1] s2(2) e_cols [OF u2] s3(2)
      p_cols [OF u3] s4(2) m_cols [OF u4] m1 m2 m3 m4 sel distf]
  have cells: "\<forall>i<length (rows C).
      fact_row (table_of Dt) (table_of De) (table_of Dp) (table_of Dm) C (rows C ! i)
        (snd (rows fact ! i))"
    using ref(3) by blast
  show ?thesis
    using s1(2) s2(2) s3(2) s4(2) tables len ref(1) cells unfolding C_def by blast
qed

section \<open>Stage 3: the claims\<close>

text \<open>
  C4. When \<^verbatim>\<open>build_semantic_layer\<close> completes on a non-empty core frame, each of the four
  dimension tables in the store has as many rows as the core frame has distinct tuples of
  the dimension's defining attributes (nulls compare equal), and its surrogate key column
  reads 1, 2, ..., that number, from the first row to the last.
\<close>

theorem dimension_keys_count_from_one:
  assumes "snd (build_semantic_layer core_df w) = None"
    and "\<not> is_empty (heap w core_df)" and "core_df < fresh w" and "wf_frame (heap w core_df)"
  shows "\<exists>t1 t2 t3 t4.
           db (fst (build_semantic_layer core_df w)) ''DIM_TIME'' = Some t1
           \<and> length (snd t1) = distinct_tuples time_attrs (heap w core_df)
           \<and> table_column t1 ''TIME_ID''
               = map (\<lambda>i. Num (of_nat i)) [1..<Suc (distinct_tuples time_attrs (heap w core_df))]
           \<and> db (fst (build_semantic_layer core_df w)) ''DIM_EMPRESA'' = Some t2
           \<and> length (snd t2) = distinct_tuples empresa_attrs (heap w core_df)
           \<and> table_column t2 ''EMPRESA_ID''
               = map (\<lambda>i. Num (of_nat i)) [1..<Suc (distinct_tuples empresa_attrs (heap w core_df))]
           \<and> db (fst (build_semantic_layer core_df w)) ''DIM_PAIS'' = Some t3
           \<and> length (snd t3) = distinct_tuples pais_attrs (heap w core_df)
           \<and> table_column t3 ''PAIS_ID''
               = map (\<lambda>i. Num (of_nat i)) [1..<Suc (distinct_tuples pais_attrs (heap w core_df))]
           \<and> db (fst (build_semantic_layer core_df w)) ''DIM_MERCANCIA'' = Some t4
           \<and> length (snd t4) = distinct_tuples mercancia_attrs (heap w core_df)
           \<and> table_column t4 ''MERCANCIA_ID''
               = map (\<lambda>i. Num (of_nat i)) [1..<Suc (distinct_tuples mercancia_attrs (heap w core_df))]"
proof -
  from build_success [OF assms] obtain Dt De Dp Dm where
    f: "dim_facts time_attrs ''TIME_ID'' (heap w core_df) Dt"
       "dim_facts empresa_attrs ''EMPRESA_ID'' (heap w core_df) De"
       "dim_facts pais_attrs ''PAIS_ID'' (heap w core_df) Dp"
       "dim_facts mercancia_attrs ''MERCANCIA_ID'' (heap w core_df) Dm"
    and t: "db (fst (build_semantic_layer core_df w)) ''DIM_TIME'' = Some (table_of Dt)"
       "db (fst (build_semantic_layer core_df w)) ''DIM_EMPRESA'' = Some (table_of De)"
       "db (fst (build_semantic_layer core_df w)) ''DIM_PAIS'' = Some (table_of Dp)"
       "db (fst (build_semantic_layer core_df w)) ''DIM_MERCANCIA'' = Some (table_of Dm)"
    by blast
  show ?thesis
    using t dim_facts_table [OF f(1)] dim_facts_table [OF f(2)] dim_facts_table [OF f(3)]
      dim_facts_table [OF f(4)]
    by blast
qed

text \<open>
  C5. When \<^verbatim>\<open>build_semantic_layer\<close> completes on a non-empty core frame, the fact table in
  the store has at most as many rows as the core frame.
\<close>

theorem fact_rows_at_most_core_rows:
  assumes "snd (build_semantic_layer core_df w) = None"
    and "\<not> is_empty (heap w core_df)" and "core_df < fresh w" and "wf_frame (heap w core_df)"
  shows "\<exists>t. db (fst (build_semantic_layer core_df w)) ''FACT_EXPORTACIONES'' = Some t
           \<and> length (snd t) \<le> length (rows (heap w core_df))"
proof -
  from build_success [OF assms] obtain fact where
    "db (fst (build_semantic_layer core_df w)) ''FACT_EXPORTACIONES'' = Some (table_of fact)"
    "length (rows fact) = length (rows (heap w core_df))" by blast
  then show ?thesis by (intro exI [of _ "table_of fact"]) (simp add: table_of_def)
qed

text \<open>
  C8. When \<^verbatim>\<open>build_semantic_layer\<close> completes on a non-empty core frame, the fact table in
  the store has the eight fact columns and exactly as many rows as the core frame, and its
  rows are the rows of the core frame in order: for every row of the core frame, null date
  and null attributes included, each of the four stored dimension tables has exactly one
  row with the attribute tuple of that row (nulls equal), and the fact row holds the
  surrogate keys of these four rows followed by the three measures and the form number of
  the core row.
\<close>

theorem fact_rows_equal_core_rows:
  assumes "snd (build_semantic_layer core_df w) = None"
    and "\<not> is_empty (heap w core_df)" and "core_df < fresh w" and "wf_frame (heap w core_df)"
  shows "\<exists>fact_t time_t empresa_t pais_t mercancia_t.
           db (fst (build_semantic_layer core_df w)) ''FACT_EXPORTACIONES'' = Some fact_t
           \<and> db (fst (build_semantic_layer core_df w)) ''DIM_TIME'' = Some time_t
           \<and> db (fst (build_semantic_layer core_df w)) ''DIM_EMPRESA'' = Some empresa_t
           \<and> db (fst (build_semantic_layer core_df w)) ''DIM_PAIS'' = Some pais_t
           \<and> db (fst (build_semantic_layer core_df w)) ''DIM_MERCANCIA'' = Some mercancia_t
           \<and> fst fact_t = fact_columns
           \<and> length (snd fact_t) = length (rows (heap w core_df))
           \<and> (\<forall>i<length (rows (heap w core_df)).
                 fact_row time_t empresa_t pais_t mercancia_t (heap w core_df)
                   (rows (heap w core_df) ! i) (snd fact_t ! i))"
proof -
  from build_success [OF assms] obtain Dt De Dp Dm fact_df where
    t: "db (fst (build_semantic_layer core_df w)) ''DIM_TIME'' = Some (table_of Dt)"
       "db (fst (build_semantic_layer core_df w)) ''DIM_EMPRESA'' = Some (table_of De)"
       "db (fst (build_semantic_layer core_df w)) ''DIM_PAIS'' = Some (table_of Dp)"
       "db (fst (build_semantic_layer core_df w)) ''DIM_MERCANCIA'' = Some (table_of Dm)"
       "db (fst (build_semantic_layer core_df w)) ''FACT_EXPORTACIONES'' = Some (table_of fact_df)"
    and len: "length (rows fact_df) = length (rows (heap w core_df))"
    and cols: "columns fact_df = fact_columns"
    and cells: "\<forall>i<length (rows (heap w core_df)).
                 fact_row (table_of Dt) (table_of De) (table_of Dp) (table_of Dm) (heap w core_df)
                   (rows (heap w core_df) ! i) (snd (rows fact_df ! i))"
    by blast
  have "fst (table_of fact_df) = fact_columns" using cols by (simp add: table_of_def)
  moreover have "length (snd (table_of fact_df)) = length (rows (heap w core_df))"
    using len by (simp add: table_of_def)
  moreover have "\<forall>i<length (rows (heap w core_df)).
                 fact_row (table_of Dt) (table_of De) (table_of Dp) (table_of Dm) (heap w core_df)
                   (rows (heap w core_df) ! i) (snd (table_of fact_df) ! i)"
    using cells len by (simp add: table_of_def)
  ultimately show ?thesis using t by blast
qed

text \<open>
  C10. Whatever \<^verbatim>\<open>build_semantic_layer\<close> does (return early, complete, or raise on the
  way), the object the caller's reference points to is afterwards the frame it was before:
  same columns, same rows, same values.
\<close>

theorem build_semantic_layer_keeps_core:
  assumes "core_df < fresh w"
  shows "heap (fst (build_semantic_layer core_df w)) core_df = heap w core_df"
  using preserves_heap [OF build_semantic_layer_preserves assms] .

section \<open>Stage 3: when the build completes\<close>

lemma extract_dimension_eval:
  "dimension_frame attrs id_label (heap w core) = Inr D \<Longrightarrow>
   extract_dimension core attrs id_label w
     = (w\<lparr>heap := (heap w)(fresh w := D), fresh := Suc (fresh w)\<rparr>, Inr (fresh w))"
  by (auto simp: extract_dimension_def dimension_frame_def new_frame_def setitem_def Let_def
      split: sum.splits)

lemma build_dim_eval:
  "dimension_frame attrs id_label (heap w core) = Inr D \<Longrightarrow> distinct (columns D) \<Longrightarrow>
   build_dim core attrs id_label name w
     = (w\<lparr>heap := (heap w)(fresh w := D), fresh := Suc (fresh w),
          db := (db w)(name \<mapsto> table_of D)\<rparr>, Inr (fresh w))"
  by (simp add: build_dim_def extract_dimension_eval to_sql_def)

lemma build_dim_time_eval:
  assumes "dimension_frame time_attrs ''TIME_ID'' (heap w core) = Inr D0"
    and "dt_part Year FECHA D0 = Inr ys"
    and "dt_part Month FECHA (set_column ''YEAR'' ys D0) = Inr ms"
    and "dt_part Day FECHA (set_column ''MONTH'' ms (set_column ''YEAR'' ys D0)) = Inr ds"
    and "distinct (columns (set_column ''DAY'' ds (set_column ''MONTH'' ms (set_column ''YEAR'' ys D0))))"
  shows "build_dim_time core w
     = (w\<lparr>heap := (heap w)(fresh w := set_column ''DAY'' ds (set_column ''MONTH'' ms (set_column ''YEAR'' ys D0))),
          fresh := Suc (fresh w),
          db := (db w)(''DIM_TIME'' \<mapsto> table_of (set_column ''DAY'' ds (set_column ''MONTH'' ms (set_column ''YEAR'' ys D0))))\<rparr>,
        Inr (fresh w))"
  using assms
  by (simp add: build_dim_time_def extract_dimension_eval add_date_part_def setitem_def to_sql_def)

lemma build_fact_eval:
  assumes "merge (heap w core) (heap w dt) time_attrs = Inr f1"
    and "merge f1 (heap w de) empresa_attrs = Inr f2"
    and "merge f2 (heap w dp) pais_attrs = Inr f3"
    and "merge f3 (heap w dm) mercancia_attrs = Inr f4"
    and "select_columns fact_columns f4 = Inr fact_df"
    and "distinct (columns fact_df)"
  shows "snd (build_fact core dt de dp dm w) = None"
  using assms by (simp add: build_fact_def to_sql_def)

lemma count_one_mem: "count_list xs x = 1 \<Longrightarrow> x \<in> set xs"
  using count_list_0_iff [of xs x] by auto

lemma dimension_frame_succeeds:
  assumes uniq: "\<forall>a\<in>set attrs. count_list (columns C) a = 1"
    and wf: "wf_frame C" and id: "id_label \<notin> set attrs"
  shows "\<exists>D. dimension_frame attrs id_label C = Inr D \<and> columns D = attrs @ [id_label]
              \<and> dim_facts attrs id_label C D"
proof -
  have "\<not> list_ex (\<lambda>c. c \<notin> set (columns C)) attrs"
    using uniq by (auto simp: list_ex_iff dest: count_one_mem [unfolded One_nat_def])
  then obtain D where D: "dimension_frame attrs id_label C = Inr D"
    by (simp add: dimension_frame_def select_columns_def Let_def)
  with dim_facts_initial [OF D uniq wf id] show ?thesis by blast
qed

lemma dt_part_succeeds:
  assumes F: "dim_facts time_attrs id_label C D"
    and one: "count_list (columns D) FECHA = 1"
    and dates: "list_all (\<lambda>r. datetime_like (cell_at (columns C) (snd r) FECHA)) (rows C)"
  shows "\<exists>vs. dt_part p FECHA D = Inr vs"
proof -
  have da: "distinct time_attrs" by (simp add: time_attrs_def)
  have keys: "map (join_key time_attrs D) (rows D) = map (\<lambda>r. take (length time_attrs) (snd r)) (rows D)"
    by (rule dim_facts_keys [OF F da])
  from F have st: "set (map (\<lambda>r. take (length time_attrs) (snd r)) (rows D))
                   = set (map (join_key time_attrs C) (rows C))" by (simp add: dim_facts_def)
  have "datetime_like (cell_at (columns D) (snd r) FECHA)" if r: "r \<in> set (rows D)" for r
  proof -
    have "join_key time_attrs D r \<in> set (map (join_key time_attrs D) (rows D))" using r by simp
    then have "join_key time_attrs D r \<in> set (map (join_key time_attrs C) (rows C))"
      unfolding keys st .
    then obtain l where l: "l \<in> set (rows C)" "join_key time_attrs D r = join_key time_attrs C l"
      by auto
    then have "cell_at (columns D) (snd r) FECHA = cell_at (columns C) (snd l) FECHA"
      by (simp add: join_key_def time_attrs_def)
    with dates l(1) show ?thesis by (simp add: list_all_iff)
  qed
  then have "list_all datetime_like (map (\<lambda>r. cell_at (columns D) (snd r) FECHA) (rows D))"
    by (simp add: list_all_iff)
  moreover have "FECHA \<in> set (columns D)" using one by (rule count_one_mem)
  ultimately show ?thesis using one by (simp add: dt_part_def)
qed

lemma suffix_clash_same: "\<not> suffix_clash xs xs"
  by (auto simp: suffix_clash_def list_ex_iff)

lemma merged_columns_disjoint:
  assumes "\<forall>k\<in>set keys. count_list left_cols k = 1 \<and> count_list right_cols k = 1"
    and "\<forall>c\<in>set right_cols. c \<in> set keys \<or> c \<notin> set left_cols"
  shows "merged_columns left_cols right_cols keys
           = Inr (left_cols @ filter (\<lambda>c. c \<notin> set keys) right_cols)"
proof -
  have a: "\<not> list_ex (\<lambda>k. \<not> (k \<in> set left_cols \<and> k \<in> set right_cols)) keys"
    using assms(1) by (auto simp: list_ex_iff dest: count_one_mem [unfolded One_nat_def])
  have b: "\<not> list_ex (\<lambda>k. 1 < count_list left_cols k \<or> 1 < count_list right_cols k) keys"
    using assms(1) by (auto simp: list_ex_iff)
  have ov: "filter (\<lambda>c. c \<in> set (filter (\<lambda>c. c \<notin> set keys) right_cols)) left_cols = []"
    using assms(2) by (auto simp: filter_empty_conv)
  show ?thesis
    unfolding merged_columns_def Let_def ov using a b by (simp add: suffix_clash_same)
qed

lemma merge_succeeds:
  assumes "\<forall>k\<in>set keys. count_list (columns left) k = 1 \<and> count_list (columns right) k = 1"
    and "\<forall>c\<in>set (columns right). c \<in> set keys \<or> c \<notin> set (columns left)"
  shows "\<exists>F. merge left right keys = Inr F
            \<and> columns F = columns left @ filter (\<lambda>c. c \<notin> set keys) (columns right)"
  by (simp add: merge_def merged_columns_disjoint [OF assms])

lemma select_columns_columns:
  assumes "select_columns ls df = Inr sel" and "\<forall>a\<in>set ls. count_list (columns df) a = 1"
  shows "columns sel = ls"
proof -
  from assms(1) have c: "columns sel = concat (map (\<lambda>l. filter (\<lambda>c. c = l) (columns df)) ls)"
    by (auto simp: select_columns_def split: if_splits)
  have "concat (map (\<lambda>l. filter (\<lambda>c. c = l) (columns df)) ls) = map (\<lambda>l. l) ls"
    using assms(2) by (intro concat_map_singletons) (simp add: filter_eq_replicate)
  then show ?thesis unfolding c by simp
qed

lemma buildable_facts:
  assumes "buildable C"
  shows "\<not> is_empty C" and "wf_frame C"
    and "\<forall>k\<in>set used_labels. count_list (columns C) k = 1"
    and "\<forall>g\<in>set generated_labels. g \<notin> set (columns C) \<and> count_list (columns C) g = 0"
    and "list_all (\<lambda>r. datetime_like (cell_at (columns C) (snd r) FECHA)) (rows C)"
  using assms by (simp_all add: buildable_def list_all_iff count_list_0_iff)

lemma select_columns_succeeds:
  "\<forall>a\<in>set ls. count_list (columns df) a = 1 \<Longrightarrow>
   \<exists>sel. select_columns ls df = Inr sel \<and> columns sel = ls"
proof -
  assume u: "\<forall>a\<in>set ls. count_list (columns df) a = 1"
  then have "\<not> list_ex (\<lambda>c. c \<notin> set (columns df)) ls"
    by (auto simp: list_ex_iff dest: count_one_mem [unfolded One_nat_def])
  then obtain sel where s: "select_columns ls df = Inr sel" by (simp add: select_columns_def)
  with select_columns_columns [OF s u] show ?thesis by blast
qed

text \<open>On a buildable core frame behind an allocated reference the build completes.\<close>

lemma build_completes:
  assumes B: "buildable (heap w core)" and alloc: "core < fresh w"
  shows "snd (build_semantic_layer core w) = None"
proof -
  define C where "C = heap w core"
  define w0 where "w0 = logging InfoConnected w"
  have w0: "heap w0 = heap w" "fresh w0 = fresh w" by (simp_all add: w0_def logging_def)
  note bf = buildable_facts [OF B [folded C_def]]
  have used: "count_list (columns C) k = 1" if "k \<in> set used_labels" for k
    using bf(3) that by blast
  have gen: "g \<notin> set (columns C)" "count_list (columns C) g = 0" if "g \<in> set generated_labels" for g
    using bf(4) that by blast+
  have ut: "\<forall>a\<in>set time_attrs. count_list (columns C) a = 1"
    and ue: "\<forall>a\<in>set empresa_attrs. count_list (columns C) a = 1"
    and up: "\<forall>a\<in>set pais_attrs. count_list (columns C) a = 1"
    and um: "\<forall>a\<in>set mercancia_attrs. count_list (columns C) a = 1"
    using used by (auto simp: used_labels_def)
  \<comment> \<open>the time dimension\<close>
  from dimension_frame_succeeds [OF ut bf(2), of "''TIME_ID''"] obtain D0 where
    D0: "dimension_frame time_attrs ''TIME_ID'' C = Inr D0"
    and c0: "columns D0 = [FECHA, ''TIME_ID'']"
    and f0: "dim_facts time_attrs ''TIME_ID'' C D0"
    by (auto simp: time_attrs_def)
  from dt_part_succeeds [OF f0 _ bf(5), of Year] obtain ys where
    ys: "dt_part Year FECHA D0 = Inr ys" by (auto simp: c0)
  have ly: "length ys = length (rows D0)" by (rule dt_part_length [OF ys])
  let ?D1 = "set_column ''YEAR'' ys D0"
  have l1: "''YEAR'' \<notin> set (columns D0)" by (simp add: c0)
  have c1: "columns ?D1 = [FECHA, ''TIME_ID'', ''YEAR'']"
    using set_column_append(1) [OF l1 ly] by (simp add: c0)
  have f1: "dim_facts time_attrs ''TIME_ID'' C ?D1"
    by (rule dim_facts_append [OF f0 l1 ly]) (simp add: c0)
  from dt_part_succeeds [OF f1 _ bf(5), of Month] obtain ms where
    ms: "dt_part Month FECHA ?D1 = Inr ms" by (auto simp: c1)
  have lm: "length ms = length (rows ?D1)" by (rule dt_part_length [OF ms])
  let ?D2 = "set_column ''MONTH'' ms ?D1"
  have l2: "''MONTH'' \<notin> set (columns ?D1)" by (simp add: c1)
  have c2: "columns ?D2 = [FECHA, ''TIME_ID'', ''YEAR'', ''MONTH'']"
    using set_column_append(1) [OF l2 lm] by (simp add: c1)
  have f2: "dim_facts time_attrs ''TIME_ID'' C ?D2"
    by (rule dim_facts_append [OF f1 l2 lm]) (simp add: c1)
  from dt_part_succeeds [OF f2 _ bf(5), of Day] obtain ds where
    ds: "dt_part Day FECHA ?D2 = Inr ds" by (auto simp: c2)
  have ld: "length ds = length (rows ?D2)" by (rule dt_part_length [OF ds])
  define Dt where "Dt = set_column ''DAY'' ds ?D2"
  have l3: "''DAY'' \<notin> set (columns ?D2)" by (simp add: c2)
  have ct: "columns Dt = [FECHA, ''TIME_ID'', ''YEAR'', ''MONTH'', ''DAY'']"
    unfolding Dt_def using set_column_append(1) [OF l3 ld] by (simp add: c2)
  define w1 where "w1 = w0\<lparr>heap := (heap w0)(fresh w0 := Dt), fresh := Suc (fresh w0),
          db := (db w0)(''DIM_TIME'' \<mapsto> table_of Dt)\<rparr>"
  have t: "build_dim_time core w0 = (w1, Inr (fresh w))"
    unfolding w1_def Dt_def
    using build_dim_time_eval [of w0 core D0 ys ms ds] D0 ys ms ds ct [unfolded Dt_def] w0
    by (simp add: C_def)
  have h1: "heap w1 core = C" "fresh w1 = Suc (fresh w)"
    using alloc by (simp_all add: w1_def w0 C_def)
  \<comment> \<open>the other dimensions\<close>
  from dimension_frame_succeeds [OF ue bf(2), of "''EMPRESA_ID''"] obtain De where
    De: "dimension_frame empresa_attrs ''EMPRESA_ID'' C = Inr De"
    and ce: "columns De = empresa_attrs @ [''EMPRESA_ID'']"
    by (auto simp: empresa_attrs_def)
  define w2 where "w2 = w1\<lparr>heap := (heap w1)(fresh w1 := De), fresh := Suc (fresh w1),
          db := (db w1)(''DIM_EMPRESA'' \<mapsto> table_of De)\<rparr>"
  have e: "build_dim core empresa_attrs ''EMPRESA_ID'' ''DIM_EMPRESA'' w1 = (w2, Inr (Suc (fresh w)))"
    unfolding w2_def using build_dim_eval [of empresa_attrs "''EMPRESA_ID''" w1 core De] De h1
    by (simp add: ce empresa_attrs_def)
  have h2: "heap w2 core = C" "fresh w2 = Suc (Suc (fresh w))"
    using alloc h1 by (simp_all add: w2_def)
  from dimension_frame_succeeds [OF up bf(2), of "''PAIS_ID''"] obtain Dp where
    Dp: "dimension_frame pais_attrs ''PAIS_ID'' C = Inr Dp"
    and cp: "columns Dp = pais_attrs @ [''PAIS_ID'']"
    by (auto simp: pais_attrs_def)
  define w3 where "w3 = w2\<lparr>heap := (heap w2)(fresh w2 := Dp), fresh := Suc (fresh w2),
          db := (db w2)(''DIM_PAIS'' \<mapsto> table_of Dp)\<rparr>"
  have p: "build_dim core pais_attrs ''PAIS_ID'' ''DIM_PAIS'' w2 = (w3, Inr (Suc (Suc (fresh w))))"
    unfolding w3_def using build_dim_eval [of pais_attrs "''PAIS_ID''" w2 core Dp] Dp h2
    by (simp add: cp pais_attrs_def)
  have h3: "heap w3 core = C" "fresh w3 = Suc (Suc (Suc (fresh w)))"
    using alloc h2 by (simp_all add: w3_def)
  from dimension_frame_succeeds [OF um bf(2), of "''MERCANCIA_ID''"] obtain Dm where
    Dm: "dimension_frame mercancia_attrs ''MERCANCIA_ID'' C = Inr Dm"
    and cm: "columns Dm = mercancia_attrs @ [''MERCANCIA_ID'']"
    by (auto simp: mercancia_attrs_def)
  define w4 where "w4 = w3\<lparr>heap := (heap w3)(fresh w3 := Dm), fresh := Suc (fresh w3),
          db := (db w3)(''DIM_MERCANCIA'' \<mapsto> table_of Dm)\<rparr>"
  have m: "build_dim core mercancia_attrs ''MERCANCIA_ID'' ''DIM_MERCANCIA'' w3
             = (w4, Inr (Suc (Suc (Suc (fresh w)))))"
    unfolding w4_def using build_dim_eval [of mercancia_attrs "''MERCANCIA_ID''" w3 core Dm] Dm h3
    by (simp add: cm mercancia_attrs_def)
  have h4: "heap w4 core = C" "heap w4 (fresh w) = Dt" "heap w4 (Suc (fresh w)) = De"
    "heap w4 (Suc (Suc (fresh w))) = Dp" "heap w4 (Suc (Suc (Suc (fresh w)))) = Dm"
    using alloc by (simp_all add: w4_def w3_def w2_def w1_def w0 C_def)
  \<comment> \<open>the joins\<close>
  have g: "''TIME_ID'' \<notin> set (columns C)" "''YEAR'' \<notin> set (columns C)"
    "''MONTH'' \<notin> set (columns C)" "''DAY'' \<notin> set (columns C)"
    "''EMPRESA_ID'' \<notin> set (columns C)" "''PAIS_ID'' \<notin> set (columns C)"
    "''MERCANCIA_ID'' \<notin> set (columns C)"
    using gen(1) by (simp_all add: generated_labels_def)
  have g0: "count_list (columns C) ''TIME_ID'' = 0" "count_list (columns C) ''EMPRESA_ID'' = 0"
    "count_list (columns C) ''PAIS_ID'' = 0" "count_list (columns C) ''MERCANCIA_ID'' = 0"
    using gen(2) by (simp_all add: generated_labels_def)
  from merge_succeeds [of time_attrs C Dt] obtain j1 where
    j1: "merge C Dt time_attrs = Inr j1"
    and k1: "columns j1 = columns C @ [''TIME_ID'', ''YEAR'', ''MONTH'', ''DAY'']"
    using ut g by (auto simp: ct time_attrs_def)
  from merge_succeeds [of empresa_attrs j1 De] obtain j2 where
    j2: "merge j1 De empresa_attrs = Inr j2"
    and k2: "columns j2 = columns C @ [''TIME_ID'', ''YEAR'', ''MONTH'', ''DAY'', ''EMPRESA_ID'']"
    using ue g by (auto simp: k1 ce empresa_attrs_def)
  from merge_succeeds [of pais_attrs j2 Dp] obtain j3 where
    j3: "merge j2 Dp pais_attrs = Inr j3"
    and k3: "columns j3 = columns C @ [''TIME_ID'', ''YEAR'', ''MONTH'', ''DAY'', ''EMPRESA_ID'',
                                       ''PAIS_ID'']"
    using up g by (auto simp: k2 cp pais_attrs_def)
  from merge_succeeds [of mercancia_attrs j3 Dm] obtain j4 where
    j4: "merge j3 Dm mercancia_attrs = Inr j4"
    and k4: "columns j4 = columns C @ [''TIME_ID'', ''YEAR'', ''MONTH'', ''DAY'', ''EMPRESA_ID'',
                                       ''PAIS_ID'', ''MERCANCIA_ID'']"
    using um g by (auto simp: k3 cm mercancia_attrs_def)
  have "\<forall>a\<in>set fact_columns. count_list (columns j4) a = 1"
    using used g0 by (simp add: k4 fact_columns_def used_labels_def)
  from select_columns_succeeds [OF this] obtain fact_df where
    s: "select_columns fact_columns j4 = Inr fact_df" and cf: "columns fact_df = fact_columns"
    by blast
  have df: "distinct (columns fact_df)" by (simp add: cf fact_columns_def)
  have f: "snd (build_fact core (fresh w) (Suc (fresh w)) (Suc (Suc (fresh w)))
                  (Suc (Suc (Suc (fresh w)))) w4) = None"
    by (rule build_fact_eval [of w4 core "fresh w" j1 "Suc (fresh w)" j2 "Suc (Suc (fresh w))" j3
          "Suc (Suc (Suc (fresh w)))" j4 fact_df])
       (simp_all add: h4 j1 j2 j3 j4 s df)
  obtain w5 where f5: "build_fact core (fresh w) (Suc (fresh w)) (Suc (Suc (fresh w)))
                  (Suc (Suc (Suc (fresh w)))) w4 = (w5, None)"
    using f by (cases "build_fact core (fresh w) (Suc (fresh w)) (Suc (Suc (fresh w)))
                  (Suc (Suc (Suc (fresh w)))) w4") auto
  show ?thesis
    using bf(1) t e p m f5
    by (simp add: build_semantic_layer_def C_def w0_def [symmetric])
qed

subsection \<open>Stage 3 on the sample\<close>

lemma sample_buildable: "buildable sample_semantic_core"
  by (simp add: buildable_def sample_semantic_core_def is_empty_def wf_frame_def used_labels_def
      generated_labels_def time_attrs_def empresa_attrs_def pais_attrs_def mercancia_attrs_def
      cell_at_def datetime_like_def)

lemma sample_world:
  "heap (initial_world sample_semantic_core) 0 = sample_semantic_core"
  "(0::nat) < fresh (initial_world sample_semantic_core)"
  by (simp_all add: initial_world_def)

lemma sample_build_completes:
  "snd (build_semantic_layer 0 (initial_world sample_semantic_core)) = None"
  by (rule build_completes) (simp_all add: sample_world sample_buildable)

lemma sample_core_shape:
  "\<not> is_empty (heap (initial_world sample_semantic_core) 0)"
  "wf_frame (heap (initial_world sample_semantic_core) 0)"
  "length (rows (heap (initial_world sample_semantic_core) 0)) = 3"
  unfolding sample_world using sample_buildable
  by (simp_all add: buildable_def) (simp add: sample_semantic_core_def)

lemma sample_distinct_tuples:
  "distinct_tuples time_attrs (heap (initial_world sample_semantic_core) 0) = 2"
  "distinct_tuples empresa_attrs (heap (initial_world sample_semantic_core) 0) = 2"
  "distinct_tuples pais_attrs (heap (initial_world sample_semantic_core) 0) = 2"
  "distinct_tuples mercancia_attrs (heap (initial_world sample_semantic_core) 0) = 2"
  unfolding sample_world
  by (simp_all add: distinct_tuples_def join_key_def sample_semantic_core_def
      time_attrs_def empresa_attrs_def pais_attrs_def mercancia_attrs_def cell_at_def
      card_insert_if)

lemma one_two: "map (\<lambda>i. Num (of_nat i)) [1..<Suc 2] = [Num 1, Num 2]"
  by (simp add: upt_rec)

theorem dimension_keys_count_from_one_witness:
  "snd (build_semantic_layer 0 (initial_world sample_semantic_core)) = None
   \<and> (\<exists>t1 t2 t3 t4.
         db (fst (build_semantic_layer 0 (initial_world sample_semantic_core))) ''DIM_TIME'' = Some t1
         \<and> length (snd t1) = 2 \<and> table_column t1 ''TIME_ID'' = [Num 1, Num 2]
         \<and> db (fst (build_semantic_layer 0 (initial_world sample_semantic_core))) ''DIM_EMPRESA'' = Some t2
         \<and> length (snd t2) = 2 \<and> table_column t2 ''EMPRESA_ID'' = [Num 1, Num 2]
         \<and> db (fst (build_semantic_layer 0 (initial_world sample_semantic_core))) ''DIM_PAIS'' = Some t3
         \<and> length (snd t3) = 2 \<and> table_column t3 ''PAIS_ID'' = [Num 1, Num 2]
         \<and> db (fst (build_semantic_layer 0 (initial_world sample_semantic_core))) ''DIM_MERCANCIA'' = Some t4
         \<and> length (snd t4) = 2 \<and> table_column t4 ''MERCANCIA_ID'' = [Num 1, Num 2])"
  using dimension_keys_count_from_one
          [OF sample_build_completes sample_core_shape(1) sample_world(2) sample_core_shape(2)]
        sample_build_completes
  unfolding sample_distinct_tuples one_two by simp

theorem fact_rows_at_most_core_rows_witness:
  "snd (build_semantic_layer 0 (initial_world sample_semantic_core)) = None
   \<and> (\<exists>t. db (fst (build_semantic_layer 0 (initial_world sample_semantic_core)))
              ''FACT_EXPORTACIONES'' = Some t
          \<and> length (snd t) \<le> 3)"
  using fact_rows_at_most_core_rows
          [OF sample_build_completes sample_core_shape(1) sample_world(2) sample_core_shape(2)]
        sample_build_completes
  unfolding sample_core_shape(3) by simp

theorem fact_rows_equal_core_rows_witness:
  "snd (build_semantic_layer 0 (initial_world sample_semantic_core)) = None
   \<and> (\<exists>fact_t time_t empresa_t pais_t mercancia_t.
         db (fst (build_semantic_layer 0 (initial_world sample_semantic_core)))
            ''FACT_EXPORTACIONES'' = Some fact_t
         \<and> db (fst (build_semantic_layer 0 (initial_world sample_semantic_core)))
            ''DIM_TIME'' = Some time_t
         \<and> db (fst (build_semantic_layer 0 (initial_world sample_semantic_core)))
            ''DIM_EMPRESA'' = Some empresa_t
         \<and> db (fst (build_semantic_layer 0 (initial_world sample_semantic_core)))
            ''DIM_PAIS'' = Some pais_t
         \<and> db (fst (build_semantic_layer 0 (initial_world sample_semantic_core)))
            ''DIM_MERCANCIA'' = Some mercancia_t
         \<and> fst fact_t = fact_columns
         \<and> length (snd fact_t) = 3
         \<and> fact_row time_t empresa_t pais_t mercancia_t sample_semantic_core
              (rows sample_semantic_core ! 0) (snd fact_t ! 0)
         \<and> fact_row time_t empresa_t pais_t mercancia_t sample_semantic_core
              (rows sample_semantic_core ! 1) (snd fact_t ! 1)
         \<and> fact_row time_t empresa_t pais_t mercancia_t sample_semantic_core
              (rows sample_semantic_core ! 2) (snd fact_t ! 2)
         \<and> map (drop 4) (snd fact_t)
             = [[Num 12, Num 3, Num 1, Num 100], [Num 0, Num 0, Num 0, Num 100],
                [Num 7, Num 2, Num 1, Num 101]])"
proof -
  have len3: "length (rows sample_semantic_core) = 3" by (simp add: sample_semantic_core_def)
  from fact_rows_equal_core_rows
          [OF sample_build_completes sample_core_shape(1) sample_world(2) sample_core_shape(2)]
  obtain fact_t time_t empresa_t pais_t mercancia_t where
    t: "db (fst (build_semantic_layer 0 (initial_world sample_semantic_core)))
            ''FACT_EXPORTACIONES'' = Some fact_t"
       "db (fst (build_semantic_layer 0 (initial_world sample_semantic_core)))
            ''DIM_TIME'' = Some time_t"
       "db (fst (build_semantic_layer 0 (initial_world sample_semantic_core)))
            ''DIM_EMPRESA'' = Some empresa_t"
       "db (fst (build_semantic_layer 0 (initial_world sample_semantic_core)))
            ''DIM_PAIS'' = Some pais_t"
       "db (fst (build_semantic_layer 0 (initial_world sample_semantic_core)))
            ''DIM_MERCANCIA'' = Some mercancia_t"
    and c: "fst fact_t = fact_columns"
    and l: "length (snd fact_t) = 3"
    and r: "\<forall>i<3. fact_row time_t empresa_t pais_t mercancia_t sample_semantic_core
              (rows sample_semantic_core ! i) (snd fact_t ! i)"
    unfolding sample_world(1) len3 by blast
  from r have r0: "fact_row time_t empresa_t pais_t mercancia_t sample_semantic_core
              (rows sample_semantic_core ! 0) (snd fact_t ! 0)"
    and r1: "fact_row time_t empresa_t pais_t mercancia_t sample_semantic_core
              (rows sample_semantic_core ! 1) (snd fact_t ! 1)"
    and r2: "fact_row time_t empresa_t pais_t mercancia_t sample_semantic_core
              (rows sample_semantic_core ! 2) (snd fact_t ! 2)"
    by simp_all
  have d0: "drop 4 (snd fact_t ! 0) = [Num 12, Num 3, Num 1, Num 100]"
    using r0 by (simp add: fact_row_def sample_semantic_core_def cell_at_def)
  have d1: "drop 4 (snd fact_t ! 1) = [Num 0, Num 0, Num 0, Num 100]"
    using r1 by (simp add: fact_row_def sample_semantic_core_def cell_at_def)
  have d2: "drop 4 (snd fact_t ! 2) = [Num 7, Num 2, Num 1, Num 101]"
    using r2 by (simp add: fact_row_def sample_semantic_core_def cell_at_def)
  have "map (drop 4) (snd fact_t) = map (\<lambda>i. drop 4 (snd fact_t ! i)) [0..<3]"
    using l by (intro nth_equalityI) simp_all
  also have "\<dots> = [drop 4 (snd fact_t ! 0), drop 4 (snd fact_t ! 1), drop 4 (snd fact_t ! 2)]"
    by (simp add: upt_rec numeral_2_eq_2)
  finally have m: "map (drop 4) (snd fact_t)
             = [[Num 12, Num 3, Num 1, Num 100], [Num 0, Num 0, Num 0, Num 100],
                [Num 7, Num 2, Num 1, Num 101]]"
    unfolding d0 d1 d2 .
  show ?thesis
    by (intro conjI exI [of _ fact_t] exI [of _ time_t] exI [of _ empresa_t] exI [of _ pais_t]
        exI [of _ mercancia_t])
       (rule sample_build_completes t c l r0 r1 r2 m)+
qed

theorem build_semantic_layer_keeps_core_witness:
  "heap (fst (build_semantic_layer 0 (initial_world sample_semantic_core))) 0
     = sample_semantic_core"
  using build_semantic_layer_keeps_core [OF sample_world(2)] by (simp add: sample_world(1))

end
